theory Spec2Isabelle
  imports Main
begin

chapter \<open>The test runner of kmamal/testing\<close>

section \<open>JavaScript values\<close>

text \<open>
  The runner is JavaScript: the values a test throws, passes to an assertion or puts into
  an options object are arbitrary. \<open>jsval\<close> holds the values the runner looks at.
  Numbers are integers (\<open>Date.now()\<close> readings, step times, counts) with \<open>JNaN\<close> for the
  result of arithmetic on a non-number; fractions and infinities are not represented.
  \<open>JErr\<close> is an \<open>Error\<close> instance given by its property list (\<open>message\<close> first), \<open>JObj\<close> a
  plain data object. \<open>truthy\<close> is the test of \<open>if (v)\<close> and \<open>||\<close>, \<open>nullish\<close> the test of
  \<open>??=\<close>.
\<close>

datatype jsval =
    JUndefined
  | JNull
  | JBool bool
  | JNum int
  | JNaN
  | JStr string
  | JArr "jsval list"
  | JObj "(string \<times> jsval) list"
  | JErr "(string \<times> jsval) list"

fun truthy :: "jsval \<Rightarrow> bool" where
  "truthy JUndefined = False"
| "truthy JNull = False"
| "truthy (JBool b) = b"
| "truthy (JNum n) = (n \<noteq> 0)"
| "truthy JNaN = False"
| "truthy (JStr s) = (s \<noteq> [])"
| "truthy (JArr xs) = True"
| "truthy (JObj kvs) = True"
| "truthy (JErr kvs) = True"

fun nullish :: "jsval \<Rightarrow> bool" where
  "nullish JUndefined = True"
| "nullish JNull = True"
| "nullish v = False"

definition js_or :: "jsval \<Rightarrow> jsval \<Rightarrow> jsval" where
  "js_or a b = (if truthy a then a else b)"

definition js_coalesce :: "jsval \<Rightarrow> jsval \<Rightarrow> jsval" where
  "js_coalesce a b = (if nullish a then b else a)"

text \<open>
  \<open>to_number\<close> is the conversion behind \<open>-\<close>, \<open>Math.abs\<close> and \<open>>\<close> (\<open>None\<close> is NaN). A string
  is trimmed and read as a decimal integer with an optional sign, the empty string as 0;
  a string that denotes a fraction, an exponent or another radix is outside the integer
  model and is read as NaN here. An array converts through its string form: the empty
  array as 0, a one-element array as its element's string, a longer one as NaN.
\<close>

definition is_space :: "char \<Rightarrow> bool" where
  "is_space c = (c = CHR '' '' \<or> c = CHR 0x09 \<or> c = CHR 0x0A \<or> c = CHR 0x0B
      \<or> c = CHR 0x0C \<or> c = CHR 0x0D)"

definition is_digit :: "char \<Rightarrow> bool" where
  "is_digit c = (48 \<le> (of_char c :: nat) \<and> (of_char c :: nat) \<le> 57)"

fun digits_value :: "string \<Rightarrow> nat \<Rightarrow> nat option" where
  "digits_value [] acc = Some acc"
| "digits_value (c # cs) acc =
     (if is_digit c then digits_value cs (10 * acc + (of_char c - 48)) else None)"

definition trim :: "string \<Rightarrow> string" where
  "trim s = rev (dropWhile is_space (rev (dropWhile is_space s)))"

definition string_to_number :: "string \<Rightarrow> int option" where
  "string_to_number s =
     (case trim s of
        [] \<Rightarrow> Some 0
      | c # cs \<Rightarrow>
          if c = CHR ''+'' then (if cs = [] then None else map_option int (digits_value cs 0))
          else if c = CHR ''-'' then
            (if cs = [] then None else map_option (\<lambda>n. - int n) (digits_value cs 0))
          else map_option int (digits_value (c # cs) 0))"

fun to_number :: "jsval \<Rightarrow> int option" where
  "to_number JUndefined = None"
| "to_number JNull = Some 0"
| "to_number (JBool b) = Some (if b then 1 else 0)"
| "to_number (JNum n) = Some n"
| "to_number JNaN = None"
| "to_number (JStr s) = string_to_number s"
| "to_number (JArr []) = Some 0"
| "to_number (JArr [JUndefined]) = Some 0"
| "to_number (JArr [JNull]) = Some 0"
| "to_number (JArr [JNum n]) = Some n"
| "to_number (JArr [JStr s]) = string_to_number s"
| "to_number (JArr [JArr ys]) = to_number (JArr ys)"
| "to_number (JArr xs) = None"
| "to_number (JObj kvs) = None"
| "to_number (JErr kvs) = None"

text \<open>
  The arithmetic of \<open>step\<close>: \<open>a - b\<close>, numeric \<open>a + b\<close> (the operands of \<open>startTime += diff\<close>
  are numbers or null, never strings), \<open>Math.abs(a)\<close> and \<open>a > b\<close> with a number on the
  left. A comparison with NaN is false.
\<close>

definition js_sub :: "jsval \<Rightarrow> jsval \<Rightarrow> jsval" where
  "js_sub a b =
     (case (to_number a, to_number b) of
        (Some x, Some y) \<Rightarrow> JNum (x - y)
      | _ \<Rightarrow> JNaN)"

definition js_add :: "jsval \<Rightarrow> jsval \<Rightarrow> jsval" where
  "js_add a b =
     (case (to_number a, to_number b) of
        (Some x, Some y) \<Rightarrow> JNum (x + y)
      | _ \<Rightarrow> JNaN)"

definition js_abs :: "jsval \<Rightarrow> jsval" where
  "js_abs a = (case to_number a of Some x \<Rightarrow> JNum \<bar>x\<bar> | None \<Rightarrow> JNaN)"

definition js_gt :: "jsval \<Rightarrow> jsval \<Rightarrow> bool" where
  "js_gt a b =
     (case (to_number a, to_number b) of
        (Some x, Some y) \<Rightarrow> x > y
      | _ \<Rightarrow> False)"

subsection \<open>Error objects\<close>

text \<open>
  \<open>new Error(msg)\<close> followed by property writes (\<open>err.expected = ...\<close>) and by
  \<open>info && Object.assign(err, info)\<close>, which copies the own enumerable properties of
  \<open>info\<close> in order: the fields of an object, the indices of an array or string, nothing
  for a number or boolean; the \<open>message\<close> of an \<open>Error\<close> is not enumerable. A write to an
  existing key keeps its position. Objects are plain data, without \<open>valueOf\<close> or
  \<open>toString\<close> of their own.
\<close>

fun put :: "string \<Rightarrow> jsval \<Rightarrow> (string \<times> jsval) list \<Rightarrow> (string \<times> jsval) list" where
  "put k v [] = [(k, v)]"
| "put k v ((k', v') # kvs) = (if k = k' then (k, v) # kvs else (k', v') # put k v kvs)"

fun set_prop :: "jsval \<Rightarrow> string \<Rightarrow> jsval \<Rightarrow> jsval" where
  "set_prop (JErr kvs) k v = JErr (put k v kvs)"
| "set_prop (JObj kvs) k v = JObj (put k v kvs)"
| "set_prop w k v = w"

definition new_Error :: "string \<Rightarrow> jsval" where
  "new_Error msg = JErr [(''message'', JStr msg)]"

fun nat_str :: "nat \<Rightarrow> string" where
  "nat_str n =
     (if n < 10 then [char_of (48 + n)]
      else nat_str (n div 10) @ [char_of (48 + n mod 10)])"

definition indexed :: "jsval list \<Rightarrow> (string \<times> jsval) list" where
  "indexed xs = zip (map nat_str [0..<length xs]) xs"

fun own_props :: "jsval \<Rightarrow> (string \<times> jsval) list" where
  "own_props (JObj kvs) = kvs"
| "own_props (JErr kvs) = filter (\<lambda>kv. fst kv \<noteq> ''message'') kvs"
| "own_props (JArr xs) = indexed xs"
| "own_props (JStr s) = indexed (map (\<lambda>c. JStr [c]) s)"
| "own_props v = []"

definition Object_assign :: "jsval \<Rightarrow> jsval \<Rightarrow> jsval" where
  "Object_assign target source = foldl (\<lambda>t kv. set_prop t (fst kv) (snd kv)) target (own_props source)"

definition assign_info :: "jsval \<Rightarrow> jsval \<Rightarrow> jsval" where
  "assign_info err info = (if truthy info then Object_assign err info else err)"

section \<open>Test bodies as traces\<close>

text \<open>
  A test body is a JavaScript callback; the runner sees it only through the calls it
  makes on the context object, the events the process emits while it runs and the way it
  ends. A \<open>body\<close> records exactly that, in the order it happens:
  \<^item> \<open>Call a\<close> is a call of a context method whose exception, if any, the body lets
    escape (it ends the body); \<open>Try a\<close> is a call whose exception the body swallows (a
    \<open>try/catch\<close> around it, or a rejected promise it never awaits); \<open>Emit ev err\<close> is the
    process emitting \<open>unhandledRejection\<close> or \<open>uncaughtException\<close> with \<open>err\<close>.
  \<^item> The first list of \<open>Body\<close> is what happens before the callback returns; then it
    throws a value, returns a value that is not a promise, or returns a promise. For a
    promise the second list is what happens during \<open>await Promise.race(...)\<close>, and the
    race resolves, rejects with the body's value, or rejects with the value of the
    \<open>timeout(duration)\<close> promise of @kmamal/util (\<open>TimesOut\<close>).
  \<^item> A callback handed to \<open>throws\<close> and its relatives is given by its source text and by
    what invoking it does (\<open>Cb src res\<close>); such a callback makes no context calls of its
    own. The \<open>assert\<close> argument of \<open>throwsWith\<close> is given by what it does on the caught
    value.
  \<^item> \<open>schedule(steps, options)\<close> returns an object; \<open>Start h\<close> and \<open>Step h\<close> name the
    \<open>h\<close>-th object created in this test (from 0) and carry the \<open>Date.now()\<close> reading
    of the call. The options object is a finite map from keys to values, \<open>None\<close> a call
    without options.
  \<^item> \<open>Test name callback\<close> registers a nested test; \<open>None\<close> is an \<open>undefined\<close> callback.
  A body is finite data: a callback that registers itself again without end has no trace.
  A body abandoned by a timeout may go on calling the context after its test has
  returned; those late calls are not part of the trace.
\<close>

datatype cb_result = CbReturns jsval | CbThrows jsval

datatype cb = Cb string cb_result

datatype emitted = UnhandledRejection | UncaughtException

datatype settle = Resolves | Rejects jsval | TimesOut jsval

datatype action =
    Expect jsval
  | Timeout jsval
  | Schedule "jsval list list" "(string \<Rightarrow> jsval option) option"
  | Start nat int
  | Step nat int "jsval list"
  | Ok jsval jsval jsval
  | ThrowsNot cb jsval jsval
  | ThrowsNotAsync cb jsval jsval
  | Throws cb jsval jsval
  | ThrowsAsync cb jsval jsval
  | ThrowsWith cb cb_result jsval jsval
  | ThrowsWithAsync cb cb_result jsval jsval
  | Equal jsval jsval jsval jsval
  | Fail jsval
  | Assert cb jsval
  | Test string "body option"
and event = Call action | Try action | Emit emitted jsval
and body = Body "event list" outcome
and outcome = Throw jsval | Return jsval | Promise "event list" settle

text \<open>
  The entries of \<open>this.stack\<close>: a path string opens a group, \<open>null\<close> closes it, and
  \<open>{ name, callback }\<close> is a test. \<open>out\<close> is what the runner prints: \<open>console.group\<close>,
  \<open>console.groupEnd\<close>, \<open>console.log\<close> of plain strings, and the line of one test, which
  carries \<open>(error, shouldSortKeys)\<close> when the error was inspected and printed.
\<close>

datatype item = Group string | GroupEnd | TestItem string "body option"

datatype out =
    ConsoleGroup string
  | ConsoleGroupEnd
  | ConsoleLog "string list"
  | ConsoleLogTest string "(jsval \<times> jsval) option"

text \<open>
  \<open>locals\<close> are the variables of one \<open>runTest\<close> call that its closures share. \<open>handles\<close>
  holds, for each schedule object created so far, the \<open>tollerance\<close> and \<open>propagate\<close>
  constants its closures captured. \<open>runner\<close> is the \<open>TestRunner\<close> instance together with
  the process state the runner touches: the listener lists of the two process events
  (a \<open>handleError\<close> closure is identified by the value of \<open>countTests\<close> of the call that
  created it), the number of \<open>process.nextTick\<close> callbacks requested, the console and the
  exit code.
\<close>

record locals =
  error :: jsval
  shouldSortKeys :: jsval
  duration :: jsval
  countExpected :: jsval
  countActual :: int
  schedule :: "jsval list list option"
  startTime :: jsval
  handles :: "(jsval \<times> jsval) list"

record runner =
  countFiles :: nat
  countTests :: nat
  countFailed :: nat
  stack :: "item list"
  running :: bool
  filesDone :: bool
  unhandledRejection :: "nat list"
  uncaughtException :: "nat list"
  nextTick :: nat
  console :: "out list"
  exitCode :: "int option"

section \<open>The assertion context\<close>

text \<open>
  The methods of the object that \<open>runTest\<close> hands to the callback. Each returns the
  exception it throws, if any, the locals and the stack. \<open>isEqual\<close> is the deep equality
  of @kmamal/util, a parameter of the model. \<open>options = {}\<close> and \<open>sort = false\<close> are
  default parameters: they apply to an argument that is \<open>undefined\<close>. A step is an array
  \<open>[time, ...value]\<close>; of an empty one \<open>time\<close> is \<open>undefined\<close>.

  Where the body does what JavaScript itself rejects, the exception is a \<open>TypeError\<close>,
  kept here as an \<open>Error\<close> with an abridged message: \<open>start\<close> or \<open>step\<close> on a schedule object
  that was never created, and a call of a context method that does not exist. \<open>step\<close>
  cannot meet \<open>schedule = null\<close>, since the object it belongs to comes from a \<open>schedule\<close>
  call; the model gives that case the \<open>TypeError\<close> of \<open>null.length\<close>.
\<close>

definition get_prop :: "(string \<Rightarrow> jsval option) \<Rightarrow> string \<Rightarrow> jsval" where
  "get_prop obj k = (case obj k of None \<Rightarrow> JUndefined | Some v \<Rightarrow> v)"

definition tollerance_of :: "(string \<Rightarrow> jsval option) \<Rightarrow> jsval" where
  "tollerance_of options = js_or (get_prop options ''tollerance'') (JNum 20)"

definition propagate_of :: "(string \<Rightarrow> jsval option) \<Rightarrow> jsval" where
  "propagate_of options = js_or (get_prop options ''propagate'') (JBool True)"

definition options_default :: "(string \<Rightarrow> jsval option) option \<Rightarrow> (string \<Rightarrow> jsval option)" where
  "options_default options = (case options of None \<Rightarrow> Map.empty | Some obj \<Rightarrow> obj)"

definition sort_default :: "jsval \<Rightarrow> jsval" where
  "sort_default sortKeys = (if sortKeys = JUndefined then JBool False else sortKeys)"

definition step ::
  "(jsval \<Rightarrow> jsval \<Rightarrow> bool) \<Rightarrow> jsval \<Rightarrow> jsval \<Rightarrow> int \<Rightarrow> jsval list \<Rightarrow> locals
     \<Rightarrow> jsval option \<times> locals" where
  "step isEqual tollerance propagate now x l =
     (let elapsed = js_sub (JNum now) (startTime l) in
      case schedule l of
        None \<Rightarrow> (Some (new_Error ''Cannot read properties of null''), l)
      | Some [] \<Rightarrow>
          (Some (set_prop (new_Error ''no steps left'') ''step'' (JArr (elapsed # x))), l)
      | Some (s # rest) \<Rightarrow>
          (let time = (case s of [] \<Rightarrow> JUndefined | t # _ \<Rightarrow> t);
               value = (case s of [] \<Rightarrow> [] | _ # vs \<Rightarrow> vs);
               l1 = l\<lparr>schedule := Some rest\<rparr>
           in if \<not> isEqual (JArr value) (JArr x) then
                (Some (set_prop (set_prop (new_Error ''unexpected step'')
                         ''expected'' (JArr (time # value))) ''actual'' (JArr (elapsed # x))), l1)
              else
                (let diff = js_sub elapsed time
                 in if js_gt (js_abs diff) tollerance then
                      (Some (set_prop (set_prop (new_Error ''bad timing'')
                         ''expected'' (JArr (time # value))) ''actual'' (JArr (elapsed # x))), l1)
                    else if truthy propagate then
                      (None, l1\<lparr>startTime := js_add (startTime l1) diff\<rparr>)
                    else (None, l1))))"

definition counted :: "locals \<Rightarrow> locals" where
  "counted l = l\<lparr>countActual := countActual l + 1\<rparr>"

definition not_a_function :: jsval where
  "not_a_function = new_Error ''is not a function''"

definition didnt_throw :: "string \<Rightarrow> jsval \<Rightarrow> jsval \<Rightarrow> locals \<Rightarrow> jsval option \<times> locals" where
  "didnt_throw src info sortKeys l =
     (Some (set_prop (assign_info (new_Error ''didn't throw'') info) ''callback'' (JStr src)),
      l\<lparr>shouldSortKeys := sort_default sortKeys\<rparr>)"

definition did_throw :: "string \<Rightarrow> jsval \<Rightarrow> jsval \<Rightarrow> jsval \<Rightarrow> locals \<Rightarrow> jsval option \<times> locals" where
  "did_throw src e info sortKeys l =
     (Some (set_prop (set_prop (assign_info (new_Error ''did throw'') info)
              ''callback'' (JStr src)) ''error'' e),
      l\<lparr>shouldSortKeys := sort_default sortKeys\<rparr>)"

fun ctx_call ::
  "(jsval \<Rightarrow> jsval \<Rightarrow> bool) \<Rightarrow> action \<Rightarrow> locals \<Rightarrow> item list
     \<Rightarrow> jsval option \<times> locals \<times> item list" where
  "ctx_call isEqual (Expect n) l stk = (None, l\<lparr>countExpected := n, countActual := 0\<rparr>, stk)"
| "ctx_call isEqual (Timeout t) l stk = (None, l\<lparr>duration := t\<rparr>, stk)"
| "ctx_call isEqual (Schedule steps options) l stk =
     (None,
      l\<lparr>schedule := Some steps,
        handles := handles l @ [(tollerance_of (options_default options),
                                 propagate_of (options_default options))]\<rparr>,
      stk)"
| "ctx_call isEqual (Start h now) l stk =
     (if h < length (handles l) then (None, l\<lparr>startTime := JNum now\<rparr>, stk)
      else (Some (new_Error ''Cannot read properties of undefined''), l, stk))"
| "ctx_call isEqual (Step h now x) l stk =
     (if h < length (handles l) then
        (case step isEqual (fst (handles l ! h)) (snd (handles l ! h)) now x l of
           (thrown, l') \<Rightarrow> (thrown, l', stk))
      else (Some (new_Error ''Cannot read properties of undefined''), l, stk))"
| "ctx_call isEqual (Ok v info sortKeys) l stk =
     (if truthy v then (None, counted l, stk)
      else (Some (assign_info (new_Error ''not ok'') info),
            (counted l)\<lparr>shouldSortKeys := sort_default sortKeys\<rparr>, stk))"
| "ctx_call isEqual (ThrowsNot (Cb src res) info sortKeys) l stk =
     (case res of
        CbReturns _ \<Rightarrow> (None, counted l, stk)
      | CbThrows e \<Rightarrow> (case did_throw src e info sortKeys (counted l) of (t, l') \<Rightarrow> (t, l', stk)))"
| "ctx_call isEqual (ThrowsNotAsync (Cb src res) info sortKeys) l stk =
     (case res of
        CbReturns _ \<Rightarrow> (None, counted l, stk)
      | CbThrows e \<Rightarrow> (case did_throw src e info sortKeys (counted l) of (t, l') \<Rightarrow> (t, l', stk)))"
| "ctx_call isEqual (Throws (Cb src res) info sortKeys) l stk =
     (case res of
        CbThrows _ \<Rightarrow> (None, counted l, stk)
      | CbReturns _ \<Rightarrow> (case didnt_throw src info sortKeys (counted l) of (t, l') \<Rightarrow> (t, l', stk)))"
| "ctx_call isEqual (ThrowsAsync (Cb src res) info sortKeys) l stk =
     (case res of
        CbThrows _ \<Rightarrow> (None, counted l, stk)
      | CbReturns _ \<Rightarrow> (case didnt_throw src info sortKeys (counted l) of (t, l') \<Rightarrow> (t, l', stk)))"
| "ctx_call isEqual (ThrowsWith (Cb src res) asserted info sortKeys) l stk =
     (case res of
        CbThrows _ \<Rightarrow>
          (case asserted of
             CbThrows e \<Rightarrow> (Some e, counted l, stk)
           | CbReturns _ \<Rightarrow> (None, counted l, stk))
      | CbReturns _ \<Rightarrow> (case didnt_throw src info sortKeys (counted l) of (t, l') \<Rightarrow> (t, l', stk)))"
| "ctx_call isEqual (ThrowsWithAsync (Cb src res) asserted info sortKeys) l stk =
     (case res of
        CbThrows _ \<Rightarrow>
          (case asserted of
             CbThrows e \<Rightarrow> (Some e, counted l, stk)
           | CbReturns _ \<Rightarrow> (None, counted l, stk))
      | CbReturns _ \<Rightarrow> (case didnt_throw src info sortKeys (counted l) of (t, l') \<Rightarrow> (t, l', stk)))"
| "ctx_call isEqual (Equal actual expected info sortKeys) l stk =
     (if isEqual actual expected then (None, counted l, stk)
      else (Some (set_prop (set_prop (assign_info (new_Error ''not equal'') info)
                    ''expected'' expected) ''actual'' actual),
            (counted l)\<lparr>shouldSortKeys := sort_default sortKeys\<rparr>, stk))"
| "ctx_call isEqual (Fail info) l stk = (Some (assign_info (new_Error ''failed'') info), l, stk)"
| "ctx_call isEqual (Assert c info) l stk = (Some not_a_function, l, stk)"
| "ctx_call isEqual (Test name callback) l stk = (None, l, TestItem name callback # stk)"

section \<open>Running one test\<close>

text \<open>
  \<open>runTest\<close>: count the test, install \<open>handleError\<close> on both process events, run the
  \<open>try\<close> block, merge what it threw into \<open>error\<close> with \<open>??=\<close> in the \<open>catch\<close> clause,
  remove the listeners in \<open>finally\<close>. \<open>process.off\<close> removes the most recently added
  instance of the listener. \<open>try_block\<close> returns the value that reaches the \<open>catch\<close>
  clause: the marker of an absent callback, the exception of the body or of the awaited
  race, or the exception of the two checks after the body (\<open>post_checks\<close>).
\<close>

definition handleError :: "jsval \<Rightarrow> locals \<Rightarrow> locals" where
  "handleError err l = l\<lparr>error := js_coalesce (error l) err\<rparr>"

definition listeners :: "emitted \<Rightarrow> runner \<Rightarrow> nat list" where
  "listeners ev r =
     (case ev of UnhandledRejection \<Rightarrow> unhandledRejection r
               | UncaughtException \<Rightarrow> uncaughtException r)"

definition process_on :: "nat \<Rightarrow> runner \<Rightarrow> runner" where
  "process_on h r =
     r\<lparr>unhandledRejection := unhandledRejection r @ [h],
       uncaughtException := uncaughtException r @ [h]\<rparr>"

definition removeListener :: "nat \<Rightarrow> nat list \<Rightarrow> nat list" where
  "removeListener h hs = rev (remove1 h (rev hs))"

definition process_off :: "nat \<Rightarrow> runner \<Rightarrow> runner" where
  "process_off h r =
     r\<lparr>unhandledRejection := removeListener h (unhandledRejection r),
       uncaughtException := removeListener h (uncaughtException r)\<rparr>"

fun run_events ::
  "(jsval \<Rightarrow> jsval \<Rightarrow> bool) \<Rightarrow> nat \<Rightarrow> event list \<Rightarrow> locals \<Rightarrow> runner
     \<Rightarrow> jsval option \<times> locals \<times> runner" where
  "run_events isEqual h [] l r = (None, l, r)"
| "run_events isEqual h (Call a # es) l r =
     (case ctx_call isEqual a l (stack r) of
        (Some e, l', stk) \<Rightarrow> (Some e, l', r\<lparr>stack := stk\<rparr>)
      | (None, l', stk) \<Rightarrow> run_events isEqual h es l' (r\<lparr>stack := stk\<rparr>))"
| "run_events isEqual h (Try a # es) l r =
     (case ctx_call isEqual a l (stack r) of
        (_, l', stk) \<Rightarrow> run_events isEqual h es l' (r\<lparr>stack := stk\<rparr>))"
| "run_events isEqual h (Emit ev err # es) l r =
     run_events isEqual h es (if h \<in> set (listeners ev r) then handleError err l else l) r"

definition count_check :: "locals \<Rightarrow> jsval option" where
  "count_check l =
     (if countExpected l \<noteq> JNull \<and> JNum (countActual l) \<noteq> countExpected l then
        Some (set_prop (set_prop (new_Error ''wrong number'')
                ''expected'' (countExpected l)) ''actual'' (JNum (countActual l)))
      else None)"

definition missed_check :: "locals \<Rightarrow> jsval option" where
  "missed_check l =
     (case schedule l of
        None \<Rightarrow> None
      | Some [] \<Rightarrow> None
      | Some (s # rest) \<Rightarrow>
          Some (set_prop (new_Error ''missed steps'') ''steps'' (JArr (map JArr (s # rest)))))"

definition post_checks :: "locals \<Rightarrow> jsval option" where
  "post_checks l =
     (case count_check l of
        Some err \<Rightarrow> Some err
      | None \<Rightarrow> missed_check l)"

definition initial_locals :: locals where
  "initial_locals =
     \<lparr>error = JNull, shouldSortKeys = JBool False, duration = JNum 500,
      countExpected = JNull, countActual = 0, schedule = None, startTime = JNull,
      handles = []\<rparr>"

fun try_block ::
  "(jsval \<Rightarrow> jsval \<Rightarrow> bool) \<Rightarrow> nat \<Rightarrow> body option \<Rightarrow> locals \<Rightarrow> runner
     \<Rightarrow> jsval option \<times> locals \<times> runner" where
  "try_block isEqual h None l r =
     (Some (JStr ''NOT IMPLEMENTED''), l\<lparr>error := JStr ''NOT IMPLEMENTED''\<rparr>, r)"
| "try_block isEqual h (Some (Body es out)) l r =
     (case run_events isEqual h es l r of
        (Some e, l1, r1) \<Rightarrow> (Some e, l1, r1)
      | (None, l1, r1) \<Rightarrow>
          (case out of
             Throw v \<Rightarrow> (Some v, l1, r1)
           | Return v \<Rightarrow> (post_checks l1, l1, r1)
           | Promise es2 s \<Rightarrow>
               (case run_events isEqual h es2 l1 r1 of
                  (Some e, l2, r2) \<Rightarrow> (Some e, l2, r2)
                | (None, l2, r2) \<Rightarrow>
                    (case s of
                       Resolves \<Rightarrow> (post_checks l2, l2, r2)
                     | Rejects v \<Rightarrow> (Some v, l2, r2)
                     | TimesOut v \<Rightarrow> (Some v, l2, r2)))))"

record test_result =
  result_error :: jsval
  result_shouldSortKeys :: jsval

definition runTest ::
  "(jsval \<Rightarrow> jsval \<Rightarrow> bool) \<Rightarrow> body option \<Rightarrow> runner \<Rightarrow> test_result \<times> runner" where
  "runTest isEqual callback r =
     (let r1 = r\<lparr>countTests := countTests r + 1\<rparr>;
          h = countTests r1;
          r2 = process_on h r1
      in case try_block isEqual h callback initial_locals r2 of
           (caught, l, r3) \<Rightarrow>
             (let l' = (case caught of None \<Rightarrow> l | Some err \<Rightarrow> l\<lparr>error := js_coalesce (error l) err\<rparr>)
              in (\<lparr>result_error = error l', result_shouldSortKeys = shouldSortKeys l'\<rparr>,
                  process_off h r3)))"

section \<open>Draining the queue\<close>

text \<open>
  \<open>runTests_loop\<close> is the \<open>while\<close> loop of one call of \<open>runTests\<close> that runs alone: no other
  call of \<open>runTests\<close> is under way, so each \<open>await this.runTest(callback)\<close> goes on with
  the stack as that test left it. \<open>runTests\<close> is that loop followed by the summary. Two
  calls at once are the subject of the next section. The loop terminates because a body
  is finite: the entries a test registers are parts of its own trace, so the total size
  of the traces on the stack decreases.
\<close>

definition weight :: "item \<Rightarrow> nat" where
  "weight it = (case it of TestItem name callback \<Rightarrow> size_option size callback + 2 | _ \<Rightarrow> 1)"

definition stack_weight :: "item list \<Rightarrow> nat" where
  "stack_weight stk = sum_list (map weight stk)"

lemma stack_weight_append: "stack_weight (xs @ ys) = stack_weight xs + stack_weight ys"
  by (simp add: stack_weight_def)

lemma ctx_call_stack:
  "ctx_call isEqual a l stk = (t, l', stk') \<Longrightarrow>
     \<exists>pre. stk' = pre @ stk \<and> stack_weight pre \<le> size a + 1"
  by (cases "(isEqual, a, l, stk)" rule: ctx_call.cases)
     (auto simp: stack_weight_def weight_def did_throw_def didnt_throw_def
           split: if_splits cb_result.splits prod.splits)

lemma run_events_stack:
  "run_events isEqual h es l r = (t, l', r') \<Longrightarrow>
     \<exists>pre. stack r' = pre @ stack r \<and> stack_weight pre \<le> size_list size es"
proof (induction isEqual h es l r arbitrary: t l' r' rule: run_events.induct)
  case (1 isEqual h l r)
  then show ?case by (simp add: stack_weight_def)
next
  case (2 isEqual h a es l r)
  obtain t1 l1 stk1 where c: "ctx_call isEqual a l (stack r) = (t1, l1, stk1)"
    by (cases "ctx_call isEqual a l (stack r)") auto
  from ctx_call_stack[OF c] obtain p1 where
    p1: "stk1 = p1 @ stack r" "stack_weight p1 \<le> size a + 1" by blast
  show ?case
  proof (cases t1)
    case (Some e)
    with 2 c p1 show ?thesis by auto
  next
    case None
    with 2 c have run: "run_events isEqual h es l1 (r\<lparr>stack := stk1\<rparr>) = (t, l', r')" by simp
    have "\<exists>pre. stack r' = pre @ stk1 \<and> stack_weight pre \<le> size_list size es"
      using "2.IH"[of t1 "(l1, stk1)" l1 stk1 t l' r'] c None run by simp
    then obtain p2 where
      "stack r' = p2 @ stk1" "stack_weight p2 \<le> size_list size es" by auto
    with p1 have "stack r' = (p2 @ p1) @ stack r"
      "stack_weight (p2 @ p1) \<le> size_list size (Call a # es)"
      by (auto simp: stack_weight_append)
    then show ?thesis by blast
  qed
next
  case (3 isEqual h a es l r)
  obtain t1 l1 stk1 where c: "ctx_call isEqual a l (stack r) = (t1, l1, stk1)"
    by (cases "ctx_call isEqual a l (stack r)") auto
  from ctx_call_stack[OF c] obtain p1 where
    p1: "stk1 = p1 @ stack r" "stack_weight p1 \<le> size a + 1" by blast
  from 3 c have run: "run_events isEqual h es l1 (r\<lparr>stack := stk1\<rparr>) = (t, l', r')" by simp
  have "\<exists>pre. stack r' = pre @ stk1 \<and> stack_weight pre \<le> size_list size es"
    using "3.IH"[of t1 "(l1, stk1)" l1 stk1 t l' r'] c run by simp
  then obtain p2 where
    "stack r' = p2 @ stk1" "stack_weight p2 \<le> size_list size es" by auto
  with p1 have "stack r' = (p2 @ p1) @ stack r"
    "stack_weight (p2 @ p1) \<le> size_list size (Try a # es)"
    by (auto simp: stack_weight_append)
  then show ?case by blast
next
  case (4 isEqual h ev err es l r)
  then show ?case by (auto split: if_splits)
qed

lemma try_block_stack:
  assumes a: "try_block isEqual h callback l r = (t, l', r')"
  shows "\<exists>pre. stack r' = pre @ stack r \<and> stack_weight pre \<le> size_option size callback"
proof (cases callback)
  case None
  with a show ?thesis by (auto simp: stack_weight_def)
next
  case (Some b)
  obtain es out where b: "b = Body es out" by (cases b) auto
  obtain t1 l1 r1 where e1: "run_events isEqual h es l r = (t1, l1, r1)"
    by (cases "run_events isEqual h es l r") auto
  from run_events_stack[OF e1] obtain p1 where
    p1: "stack r1 = p1 @ stack r" "stack_weight p1 \<le> size_list size es" by blast
  show ?thesis
  proof (cases "t1 \<noteq> None \<or> (\<forall>es2 s. out \<noteq> Promise es2 s)")
    case True
    with Some b e1 a have "r' = r1"
      by (cases out) (auto split: option.splits)
    with p1 Some b show ?thesis by auto
  next
    case False
    then obtain es2 s where out: "out = Promise es2 s" and t1: "t1 = None" by auto
    obtain t2 l2 r2 where e2: "run_events isEqual h es2 l1 r1 = (t2, l2, r2)"
      by (cases "run_events isEqual h es2 l1 r1") auto
    from run_events_stack[OF e2] obtain p2 where
      p2: "stack r2 = p2 @ stack r1" "stack_weight p2 \<le> size_list size es2" by blast
    from Some b out t1 e1 e2 a have "r' = r2"
      by (auto split: option.splits settle.splits)
    with p1 p2 have "stack r' = (p2 @ p1) @ stack r"
      "stack_weight (p2 @ p1) \<le> size_option size callback"
      using Some b out by (auto simp: stack_weight_append)
    then show ?thesis by blast
  qed
qed

lemma runTest_stack:
  "runTest isEqual callback r = (res, r') \<Longrightarrow>
     \<exists>pre. stack r' = pre @ stack r \<and> stack_weight pre \<le> size_option size callback"
proof -
  assume a: "runTest isEqual callback r = (res, r')"
  obtain t l r3 where tb:
    "try_block isEqual (countTests r + 1) callback initial_locals
       (process_on (countTests r + 1) (r\<lparr>countTests := countTests r + 1\<rparr>)) = (t, l, r3)"
    by (cases "try_block isEqual (countTests r + 1) callback initial_locals
       (process_on (countTests r + 1) (r\<lparr>countTests := countTests r + 1\<rparr>))") auto
  from a tb have "r' = process_off (countTests r + 1) r3"
    by (auto simp: runTest_def Let_def)
  with try_block_stack[OF tb] show ?thesis
    by (auto simp: process_off_def process_on_def)
qed

function runTests_loop :: "(jsval \<Rightarrow> jsval \<Rightarrow> bool) \<Rightarrow> runner \<Rightarrow> runner" where
  "runTests_loop isEqual r =
     (case stack r of
        [] \<Rightarrow> r
      | it # rest \<Rightarrow>
          (case it of
             Group path \<Rightarrow>
               runTests_loop isEqual
                 (r\<lparr>stack := rest, console := console r @ [ConsoleGroup path]\<rparr>)
           | GroupEnd \<Rightarrow>
               runTests_loop isEqual
                 (r\<lparr>stack := rest, console := console r @ [ConsoleGroupEnd, ConsoleLog []]\<rparr>)
           | TestItem name callback \<Rightarrow>
               (case runTest isEqual callback (r\<lparr>stack := rest\<rparr>) of
                  (res, r') \<Rightarrow>
                    runTests_loop isEqual
                      (if truthy (result_error res) then
                         r'\<lparr>console := console r' @
                              [ConsoleLogTest name
                                 (Some (result_error res, result_shouldSortKeys res))],
                            countFailed := countFailed r' + 1\<rparr>
                       else r'\<lparr>console := console r' @ [ConsoleLogTest name None]\<rparr>))))"
  by pat_completeness auto
termination
proof (relation "measure (\<lambda>(isEqual, r). stack_weight (stack r))", goal_cases)
  case 1
  show ?case by simp
next
  case (2 isEqual r it rest path)
  then show ?case by (simp add: stack_weight_def weight_def)
next
  case (3 isEqual r it rest)
  then show ?case by (simp add: stack_weight_def weight_def)
next
  case (4 isEqual r it rest name callback res r')
  from runTest_stack[OF 4(3)[symmetric]] obtain pre where
    "stack r' = pre @ rest" "stack_weight pre \<le> size_option size callback" by auto
  with 4(1,2) show ?case
    by (simp add: stack_weight_append) (simp add: stack_weight_def weight_def)
qed

declare runTests_loop.simps [simp del]

definition runTests :: "(jsval \<Rightarrow> jsval \<Rightarrow> bool) \<Rightarrow> runner \<Rightarrow> runner" where
  "runTests isEqual r =
     (let r1 = runTests_loop isEqual r
      in if filesDone r1 then
           r1\<lparr>console := console r1 @
                  [ConsoleLog [''files: '' @ nat_str (countFiles r1)],
                   ConsoleLog [''tests: '' @ nat_str (countTests r1)],
                   ConsoleLog [''failed: '' @ nat_str (countFailed r1)]],
              exitCode := Some (if countFailed r1 > 0 then 1 else 0)\<rparr>
         else r1\<lparr>running := False\<rparr>)"

definition appendTest :: "string \<Rightarrow> body option \<Rightarrow> runner \<Rightarrow> runner" where
  "appendTest name callback r =
     (let r1 = r\<lparr>stack := stack r @ [TestItem name callback]\<rparr>
      in if running r1 then r1 else r1\<lparr>running := True, nextTick := nextTick r1 + 1\<rparr>)"

definition appendFile :: "string \<Rightarrow> (string \<times> body option) list \<Rightarrow> runner \<Rightarrow> runner" where
  "appendFile path registrations r =
     (let r1 = r\<lparr>countFiles := countFiles r + 1\<rparr>;
          r2 = r1\<lparr>stack := stack r1 @ [Group path]\<rparr>;
          r3 = foldl (\<lambda>r' reg. appendTest (fst reg) (snd reg) r') r2 registrations
      in r3\<lparr>stack := stack r3 @ [GroupEnd]\<rparr>)"

definition new_TestRunner :: runner where
  "new_TestRunner =
     \<lparr>countFiles = 0, countTests = 0, countFailed = 0, stack = [], running = False,
      filesDone = False, unhandledRejection = [], uncaughtException = [], nextTick = 0,
      console = [], exitCode = None\<rparr>"

section \<open>Several drain loops\<close>

text \<open>
  \<open>runTests\<close> is an \<open>async\<close> function: a call runs until \<open>await this.runTest(callback)\<close> and
  goes on in a later turn of the event loop, and \<open>runTest\<close> itself waits at
  \<open>await Promise.race(...)\<close>. \<open>appendTest\<close> starts a drain only when none is \<open>running\<close>, but
  \<open>finish\<close> calls \<open>this.runTests()\<close> without that test, so two calls can be under way at
  once, sharing the stack, the counters, the console and the process listeners. The
  machine below runs the calls one step at a time, in the order a list of turns gives:
  \<^item> a \<open>loop\<close> is one call of \<open>runTests\<close> between two steps: inside \<open>runTest\<close> at the \<open>await\<close> of
    the race (the name of the test, its \<open>handleError\<close>, its locals, what is still to
    happen in its body and how the race settles), after \<open>runTest\<close> has returned and before
    the loop goes on with its result, or finished;
  \<^item> \<open>start_test\<close> is \<open>runTest\<close> up to its \<open>await\<close>, or to its end when it does not wait;
    \<open>loop_head\<close> is the loop from the test of \<open>while\<close> to there, or to the end of \<open>runTests\<close>;
    \<open>resume\<close> is the next thing that happens in loop \<open>k\<close>: the next event of the body, the
    race settling and \<open>runTest\<close> returning, or the loop going on with the result;
  \<^item> an emitted process event is delivered to every installed \<open>handleError\<close>, so to every
    test that is at its \<open>await\<close>;
  \<^item> the turns are the calls of \<open>appendFile\<close>, \<open>appendTest\<close> and \<open>finish\<close> from outside (the
    command-line script calls \<open>appendFile\<close> for each file and then \<open>finish\<close>), \<open>Tick\<close> for the
    \<open>process.nextTick\<close> callback that \<open>appendTest\<close> queued, and \<open>Resume k\<close>; after
    \<open>process.exit\<close> nothing happens any more.
  \<open>started\<close> is not a variable of the program: it lists the names of the tests in the
  order in which \<open>runTest\<close> was called for them.
\<close>

datatype loop =
    Awaiting string nat locals "event list" settle
  | Returned string test_result
  | Finished

record world =
  shared :: runner
  loops :: "loop list"
  started :: "string list"

datatype op =
    AppendFile string "(string \<times> body option) list"
  | AppendTest string "body option"
  | Finish
  | Tick
  | Resume nat

definition catch_finally ::
  "nat \<Rightarrow> jsval option \<Rightarrow> locals \<Rightarrow> runner \<Rightarrow> test_result \<times> runner" where
  "catch_finally h caught l r =
     (let l' = (case caught of None \<Rightarrow> l | Some err \<Rightarrow> l\<lparr>error := js_coalesce (error l) err\<rparr>)
      in (\<lparr>result_error = error l', result_shouldSortKeys = shouldSortKeys l'\<rparr>,
          process_off h r))"

fun deliver :: "emitted \<Rightarrow> jsval \<Rightarrow> runner \<Rightarrow> loop \<Rightarrow> loop" where
  "deliver ev err r (Awaiting name h l es s) =
     Awaiting name h (if h \<in> set (listeners ev r) then handleError err l else l) es s"
| "deliver ev err r (Returned name res) = Returned name res"
| "deliver ev err r Finished = Finished"

fun sync_events ::
  "(jsval \<Rightarrow> jsval \<Rightarrow> bool) \<Rightarrow> nat \<Rightarrow> event list \<Rightarrow> locals \<Rightarrow> runner \<Rightarrow> loop list
     \<Rightarrow> jsval option \<times> locals \<times> runner \<times> loop list" where
  "sync_events isEqual h [] l r ls = (None, l, r, ls)"
| "sync_events isEqual h (Call a # es) l r ls =
     (case ctx_call isEqual a l (stack r) of
        (Some e, l', stk) \<Rightarrow> (Some e, l', r\<lparr>stack := stk\<rparr>, ls)
      | (None, l', stk) \<Rightarrow> sync_events isEqual h es l' (r\<lparr>stack := stk\<rparr>) ls)"
| "sync_events isEqual h (Try a # es) l r ls =
     (case ctx_call isEqual a l (stack r) of
        (_, l', stk) \<Rightarrow> sync_events isEqual h es l' (r\<lparr>stack := stk\<rparr>) ls)"
| "sync_events isEqual h (Emit ev err # es) l r ls =
     sync_events isEqual h es
       (if h \<in> set (listeners ev r) then handleError err l else l) r
       (map (deliver ev err r) ls)"

definition settle_test ::
  "nat \<Rightarrow> string \<Rightarrow> nat \<Rightarrow> jsval option \<Rightarrow> locals \<Rightarrow> world \<Rightarrow> world" where
  "settle_test k name h caught l w =
     (case catch_finally h caught l (shared w) of
        (res, r') \<Rightarrow> w\<lparr>shared := r', loops := (loops w)[k := Returned name res]\<rparr>)"

definition start_test ::
  "(jsval \<Rightarrow> jsval \<Rightarrow> bool) \<Rightarrow> nat \<Rightarrow> string \<Rightarrow> body option \<Rightarrow> world \<Rightarrow> world" where
  "start_test isEqual k name callback w =
     (let r1 = (shared w)\<lparr>countTests := countTests (shared w) + 1\<rparr>;
          h = countTests r1;
          r2 = process_on h r1;
          w1 = w\<lparr>started := started w @ [name]\<rparr>
      in case callback of
           None \<Rightarrow>
             settle_test k name h (Some (JStr ''NOT IMPLEMENTED''))
               (initial_locals\<lparr>error := JStr ''NOT IMPLEMENTED''\<rparr>) (w1\<lparr>shared := r2\<rparr>)
         | Some (Body es out) \<Rightarrow>
             (case sync_events isEqual h es initial_locals r2 (loops w) of
                (Some e, l1, r3, ls) \<Rightarrow>
                  settle_test k name h (Some e) l1 (w1\<lparr>shared := r3, loops := ls\<rparr>)
              | (None, l1, r3, ls) \<Rightarrow>
                  (case out of
                     Throw v \<Rightarrow>
                       settle_test k name h (Some v) l1 (w1\<lparr>shared := r3, loops := ls\<rparr>)
                   | Return v \<Rightarrow>
                       if truthy v then
                         w1\<lparr>shared := r3, loops := ls[k := Awaiting name h l1 [] Resolves]\<rparr>
                       else
                         settle_test k name h (post_checks l1) l1
                           (w1\<lparr>shared := r3, loops := ls\<rparr>)
                   | Promise es2 s \<Rightarrow>
                       w1\<lparr>shared := r3, loops := ls[k := Awaiting name h l1 es2 s]\<rparr>)))"

fun next_test :: "item list \<Rightarrow> out list \<times> item list \<times> (string \<times> body option) option" where
  "next_test [] = ([], [], None)"
| "next_test (Group path # rest) =
     (case next_test rest of (outs, rest', t) \<Rightarrow> (ConsoleGroup path # outs, rest', t))"
| "next_test (GroupEnd # rest) =
     (case next_test rest of
        (outs, rest', t) \<Rightarrow> (ConsoleGroupEnd # ConsoleLog [] # outs, rest', t))"
| "next_test (TestItem name callback # rest) = ([], rest, Some (name, callback))"

definition loop_head :: "(jsval \<Rightarrow> jsval \<Rightarrow> bool) \<Rightarrow> nat \<Rightarrow> world \<Rightarrow> world" where
  "loop_head isEqual k w =
     (case next_test (stack (shared w)) of
        (outs, rest, t) \<Rightarrow>
          (let r1 = (shared w)\<lparr>stack := rest, console := console (shared w) @ outs\<rparr>
           in case t of
                Some (name, callback) \<Rightarrow> start_test isEqual k name callback (w\<lparr>shared := r1\<rparr>)
              | None \<Rightarrow>
                  w\<lparr>shared :=
                      (if filesDone r1 then
                         r1\<lparr>console := console r1 @
                                [ConsoleLog [''files: '' @ nat_str (countFiles r1)],
                                 ConsoleLog [''tests: '' @ nat_str (countTests r1)],
                                 ConsoleLog [''failed: '' @ nat_str (countFailed r1)]],
                            exitCode := Some (if countFailed r1 > 0 then 1 else 0)\<rparr>
                       else r1\<lparr>running := False\<rparr>),
                    loops := (loops w)[k := Finished]\<rparr>))"

definition runTests_start :: "(jsval \<Rightarrow> jsval \<Rightarrow> bool) \<Rightarrow> world \<Rightarrow> world" where
  "runTests_start isEqual w =
     loop_head isEqual (length (loops w)) (w\<lparr>loops := loops w @ [Finished]\<rparr>)"

definition finish :: "(jsval \<Rightarrow> jsval \<Rightarrow> bool) \<Rightarrow> world \<Rightarrow> world" where
  "finish isEqual w = runTests_start isEqual (w\<lparr>shared := (shared w)\<lparr>filesDone := True\<rparr>\<rparr>)"

definition resume :: "(jsval \<Rightarrow> jsval \<Rightarrow> bool) \<Rightarrow> nat \<Rightarrow> world \<Rightarrow> world" where
  "resume isEqual k w =
     (if k < length (loops w) then
        (case loops w ! k of
           Awaiting name h l [] s \<Rightarrow>
             settle_test k name h
               (case s of Resolves \<Rightarrow> post_checks l | Rejects v \<Rightarrow> Some v | TimesOut v \<Rightarrow> Some v)
               l w
         | Awaiting name h l (Call a # es) s \<Rightarrow>
             (case ctx_call isEqual a l (stack (shared w)) of
                (Some e, l', stk) \<Rightarrow>
                  settle_test k name h (Some e) l' (w\<lparr>shared := (shared w)\<lparr>stack := stk\<rparr>\<rparr>)
              | (None, l', stk) \<Rightarrow>
                  w\<lparr>shared := (shared w)\<lparr>stack := stk\<rparr>,
                    loops := (loops w)[k := Awaiting name h l' es s]\<rparr>)
         | Awaiting name h l (Try a # es) s \<Rightarrow>
             (case ctx_call isEqual a l (stack (shared w)) of
                (_, l', stk) \<Rightarrow>
                  w\<lparr>shared := (shared w)\<lparr>stack := stk\<rparr>,
                    loops := (loops w)[k := Awaiting name h l' es s]\<rparr>)
         | Awaiting name h l (Emit ev err # es) s \<Rightarrow>
             w\<lparr>loops := map (deliver ev err (shared w)) ((loops w)[k := Awaiting name h l es s])\<rparr>
         | Returned name res \<Rightarrow>
             loop_head isEqual k
               (w\<lparr>shared :=
                    (if truthy (result_error res) then
                       (shared w)\<lparr>console := console (shared w) @
                            [ConsoleLogTest name
                               (Some (result_error res, result_shouldSortKeys res))],
                          countFailed := countFailed (shared w) + 1\<rparr>
                     else (shared w)\<lparr>console := console (shared w) @ [ConsoleLogTest name None]\<rparr>)\<rparr>)
         | Finished \<Rightarrow> w)
      else w)"

definition exec_op :: "(jsval \<Rightarrow> jsval \<Rightarrow> bool) \<Rightarrow> op \<Rightarrow> world \<Rightarrow> world" where
  "exec_op isEqual oper w =
     (if exitCode (shared w) = None then
        (case oper of
           AppendFile path registrations \<Rightarrow> w\<lparr>shared := appendFile path registrations (shared w)\<rparr>
         | AppendTest name callback \<Rightarrow> w\<lparr>shared := appendTest name callback (shared w)\<rparr>
         | Finish \<Rightarrow> finish isEqual w
         | Tick \<Rightarrow>
             (if nextTick (shared w) > 0 then
                runTests_start isEqual
                  (w\<lparr>shared := (shared w)\<lparr>nextTick := nextTick (shared w) - 1\<rparr>\<rparr>)
              else w)
         | Resume k \<Rightarrow> resume isEqual k w)
      else w)"

fun run_ops :: "(jsval \<Rightarrow> jsval \<Rightarrow> bool) \<Rightarrow> op list \<Rightarrow> world \<Rightarrow> world" where
  "run_ops isEqual [] w = w"
| "run_ops isEqual (oper # ops) w = run_ops isEqual ops (exec_op isEqual oper w)"

definition new_process :: world where
  "new_process = \<lparr>shared = new_TestRunner, loops = [], started = []\<rparr>"

text \<open>
  \<open>event_result\<close> names where loop \<open>k\<close> and the shared state stand once the events of a body after
  its \<open>await\<close> have happened, given what \<open>run_events\<close> makes of them: \<open>runTest\<close> has returned when
  one of them threw, and is at the race with nothing left to happen otherwise.
\<close>

definition event_result ::
  "string \<Rightarrow> nat \<Rightarrow> settle \<Rightarrow> jsval option \<times> locals \<times> runner \<Rightarrow> loop \<times> runner" where
  "event_result name h s res =
     (case res of
        (Some e, l', r') \<Rightarrow>
          (Returned name (fst (catch_finally h (Some e) l' r')),
           snd (catch_finally h (Some e) l' r'))
      | (None, l', r') \<Rightarrow> (Awaiting name h l' [] s, r'))"

section \<open>The earlier runner of src/index.js\<close>

text \<open>
  \<open>src/index.js\<close> is an earlier form of the same runner. Its context has \<open>expect\<close>,
  \<open>timeout\<close>, \<open>schedule\<close>, \<open>ok\<close>, \<open>assert\<close>, \<open>throws\<close>, \<open>equal\<close>, \<open>fail\<close> and \<open>test\<close>; a call of
  a method it does not have is a \<open>TypeError\<close> in the body. \<open>step(x)\<close> takes one value
  and a step is a pair. Errors are merged with \<open>||\<close>, and the listeners are installed
  only around the \<open>await\<close>, with the \<open>process.off\<close> calls after it inside the \<open>try\<close> block.
  In the runner of the class \<open>TestRunner\<close>, \<open>assert\<close> is the method that does not exist.
\<close>

definition legacy_step ::
  "(jsval \<Rightarrow> jsval \<Rightarrow> bool) \<Rightarrow> jsval \<Rightarrow> jsval \<Rightarrow> int \<Rightarrow> jsval \<Rightarrow> locals
     \<Rightarrow> jsval option \<times> locals" where
  "legacy_step isEqual tollerance propagate now x l =
     (let elapsed = js_sub (JNum now) (startTime l) in
      case schedule l of
        None \<Rightarrow> (Some (new_Error ''Cannot read properties of null''), l)
      | Some [] \<Rightarrow>
          (Some (set_prop (new_Error ''no steps left'') ''step'' (JArr [elapsed, x])), l)
      | Some (s # rest) \<Rightarrow>
          (let time = (case s of [] \<Rightarrow> JUndefined | t # _ \<Rightarrow> t);
               value = (case s of [] \<Rightarrow> JUndefined | [_] \<Rightarrow> JUndefined | _ # v # _ \<Rightarrow> v);
               l1 = l\<lparr>schedule := Some rest\<rparr>
           in if \<not> isEqual value x then
                (Some (set_prop (set_prop (new_Error ''unexpected step'')
                         ''expected'' (JArr [time, value])) ''actual'' (JArr [elapsed, x])), l1)
              else
                (let diff = js_sub elapsed time
                 in if js_gt (js_abs diff) tollerance then
                      (Some (set_prop (set_prop (new_Error ''bad timing'')
                         ''expected'' (JArr [time, value])) ''actual'' (JArr [elapsed, x])), l1)
                    else if truthy propagate then
                      (None, l1\<lparr>startTime := js_add (startTime l1) diff\<rparr>)
                    else (None, l1))))"

fun legacy_ctx_call ::
  "(jsval \<Rightarrow> jsval \<Rightarrow> bool) \<Rightarrow> action \<Rightarrow> locals \<Rightarrow> item list
     \<Rightarrow> jsval option \<times> locals \<times> item list" where
  "legacy_ctx_call isEqual (Expect n) l stk =
     (None, l\<lparr>countExpected := n, countActual := 0\<rparr>, stk)"
| "legacy_ctx_call isEqual (Timeout t) l stk = (None, l\<lparr>duration := t\<rparr>, stk)"
| "legacy_ctx_call isEqual (Schedule steps options) l stk =
     (None,
      l\<lparr>schedule := Some steps,
        handles := handles l @ [(tollerance_of (options_default options),
                                 propagate_of (options_default options))]\<rparr>,
      stk)"
| "legacy_ctx_call isEqual (Start h now) l stk =
     (if h < length (handles l) then (None, l\<lparr>startTime := JNum now\<rparr>, stk)
      else (Some (new_Error ''Cannot read properties of undefined''), l, stk))"
| "legacy_ctx_call isEqual (Step h now x) l stk =
     (if h < length (handles l) then
        (case legacy_step isEqual (fst (handles l ! h)) (snd (handles l ! h)) now
                (case x of [] \<Rightarrow> JUndefined | x0 # _ \<Rightarrow> x0) l of
           (thrown, l') \<Rightarrow> (thrown, l', stk))
      else (Some (new_Error ''Cannot read properties of undefined''), l, stk))"
| "legacy_ctx_call isEqual (Ok v info sortKeys) l stk =
     (if truthy v then (None, counted l, stk)
      else (Some (assign_info (new_Error ''not ok'') info), counted l, stk))"
| "legacy_ctx_call isEqual (Assert (Cb src res) info) l stk =
     (case res of
        CbThrows e \<Rightarrow> (Some e, counted l, stk)
      | CbReturns v \<Rightarrow>
          (if truthy v then (None, counted l, stk)
           else (Some (set_prop (assign_info (new_Error ''assertion failed'') info)
                         ''callback'' (JStr src)), counted l, stk)))"
| "legacy_ctx_call isEqual (Throws (Cb src res) info sortKeys) l stk =
     (case res of
        CbThrows _ \<Rightarrow> (None, counted l, stk)
      | CbReturns _ \<Rightarrow>
          (Some (set_prop (assign_info (new_Error ''didn't throw'') info) ''callback'' (JStr src)),
           counted l, stk))"
| "legacy_ctx_call isEqual (Equal actual expected info sortKeys) l stk =
     (if isEqual actual expected then (None, counted l, stk)
      else (Some (set_prop (set_prop (assign_info (new_Error ''not equal'') info)
                    ''expected'' expected) ''actual'' actual),
            counted l, stk))"
| "legacy_ctx_call isEqual (Fail info) l stk =
     (Some (assign_info (new_Error ''failed'') info), l, stk)"
| "legacy_ctx_call isEqual (Test name callback) l stk = (None, l, TestItem name callback # stk)"
| "legacy_ctx_call isEqual (ThrowsNot c info sortKeys) l stk = (Some not_a_function, l, stk)"
| "legacy_ctx_call isEqual (ThrowsNotAsync c info sortKeys) l stk = (Some not_a_function, l, stk)"
| "legacy_ctx_call isEqual (ThrowsAsync c info sortKeys) l stk = (Some not_a_function, l, stk)"
| "legacy_ctx_call isEqual (ThrowsWith c asserted info sortKeys) l stk =
     (Some not_a_function, l, stk)"
| "legacy_ctx_call isEqual (ThrowsWithAsync c asserted info sortKeys) l stk =
     (Some not_a_function, l, stk)"

definition legacy_handleError :: "jsval \<Rightarrow> locals \<Rightarrow> locals" where
  "legacy_handleError err l = l\<lparr>error := js_or (error l) err\<rparr>"

fun legacy_run_events ::
  "(jsval \<Rightarrow> jsval \<Rightarrow> bool) \<Rightarrow> nat \<Rightarrow> event list \<Rightarrow> locals \<Rightarrow> runner
     \<Rightarrow> jsval option \<times> locals \<times> runner" where
  "legacy_run_events isEqual h [] l r = (None, l, r)"
| "legacy_run_events isEqual h (Call a # es) l r =
     (case legacy_ctx_call isEqual a l (stack r) of
        (Some e, l', stk) \<Rightarrow> (Some e, l', r\<lparr>stack := stk\<rparr>)
      | (None, l', stk) \<Rightarrow> legacy_run_events isEqual h es l' (r\<lparr>stack := stk\<rparr>))"
| "legacy_run_events isEqual h (Try a # es) l r =
     (case legacy_ctx_call isEqual a l (stack r) of
        (_, l', stk) \<Rightarrow> legacy_run_events isEqual h es l' (r\<lparr>stack := stk\<rparr>))"
| "legacy_run_events isEqual h (Emit ev err # es) l r =
     legacy_run_events isEqual h es
       (if h \<in> set (listeners ev r) then legacy_handleError err l else l) r"

fun legacy_try_block ::
  "(jsval \<Rightarrow> jsval \<Rightarrow> bool) \<Rightarrow> nat \<Rightarrow> body option \<Rightarrow> locals \<Rightarrow> runner
     \<Rightarrow> jsval option \<times> locals \<times> runner" where
  "legacy_try_block isEqual h None l r =
     (Some (JStr ''NOT IMPLEMENTED''), l\<lparr>error := JStr ''NOT IMPLEMENTED''\<rparr>, r)"
| "legacy_try_block isEqual h (Some (Body es out)) l r =
     (case legacy_run_events isEqual h es l r of
        (Some e, l1, r1) \<Rightarrow> (Some e, l1, r1)
      | (None, l1, r1) \<Rightarrow>
          (case out of
             Throw v \<Rightarrow> (Some v, l1, r1)
           | Return v \<Rightarrow>
               (post_checks l1, l1,
                if truthy v then process_off h (process_on h r1) else r1)
           | Promise es2 s \<Rightarrow>
               (case legacy_run_events isEqual h es2 l1 (process_on h r1) of
                  (Some e, l2, r2) \<Rightarrow> (Some e, l2, r2)
                | (None, l2, r2) \<Rightarrow>
                    (case s of
                       Resolves \<Rightarrow> (post_checks l2, l2, process_off h r2)
                     | Rejects v \<Rightarrow> (Some v, l2, r2)
                     | TimesOut v \<Rightarrow> (Some v, l2, r2)))))"

definition legacy_runTest ::
  "(jsval \<Rightarrow> jsval \<Rightarrow> bool) \<Rightarrow> body option \<Rightarrow> runner \<Rightarrow> jsval \<times> runner" where
  "legacy_runTest isEqual callback r =
     (let r1 = r\<lparr>countTests := countTests r + 1\<rparr>;
          h = countTests r1
      in case legacy_try_block isEqual h callback initial_locals r1 of
           (caught, l, r3) \<Rightarrow>
             ((case caught of None \<Rightarrow> error l | Some err \<Rightarrow> js_or (error l) err), r3))"

section \<open>Reading a trace\<close>

text \<open>
  What the statements below say about a body: \<open>events_of\<close> is everything that happens
  while the body runs, before and during the \<open>await\<close>; \<open>thrown_by\<close> is the value with which
  the body itself ends the \<open>try\<close> block (its own \<open>throw\<close>, the rejection of its promise, or
  the rejection of the timeout), \<open>None\<close> when it completes. \<open>body_run\<close> is the run of those
  events inside \<open>runTest\<close> from runner state \<open>r\<close>: the test is counted and \<open>handleError\<close>
  is installed. \<open>counts\<close> marks the context methods that increment \<open>countActual\<close>, and
  \<open>assertions\<close> and \<open>expects\<close> count the calls of a list of events. \<open>is_step_on n\<close> marks a
  \<open>step\<close> call on one of the first \<open>n\<close> schedule objects, that is, on an object that exists
  when \<open>n\<close> have been created.
\<close>

fun events_of :: "body \<Rightarrow> event list" where
  "events_of (Body es out) = es @ (case out of Promise es2 s \<Rightarrow> es2 | _ \<Rightarrow> [])"

fun thrown_by :: "body \<Rightarrow> jsval option" where
  "thrown_by (Body es out) =
     (case out of
        Throw v \<Rightarrow> Some v
      | Return v \<Rightarrow> None
      | Promise es2 s \<Rightarrow>
          (case s of Resolves \<Rightarrow> None | Rejects v \<Rightarrow> Some v | TimesOut v \<Rightarrow> Some v))"

definition body_run ::
  "(jsval \<Rightarrow> jsval \<Rightarrow> bool) \<Rightarrow> body \<Rightarrow> runner \<Rightarrow> jsval option \<times> locals \<times> runner" where
  "body_run isEqual b r =
     run_events isEqual (countTests r + 1) (events_of b) initial_locals
       (process_on (countTests r + 1) (r\<lparr>countTests := countTests r + 1\<rparr>))"

fun counts :: "action \<Rightarrow> bool" where
  "counts (Ok v info sortKeys) = True"
| "counts (ThrowsNot c info sortKeys) = True"
| "counts (ThrowsNotAsync c info sortKeys) = True"
| "counts (Throws c info sortKeys) = True"
| "counts (ThrowsAsync c info sortKeys) = True"
| "counts (ThrowsWith c asserted info sortKeys) = True"
| "counts (ThrowsWithAsync c asserted info sortKeys) = True"
| "counts (Equal actual expected info sortKeys) = True"
| "counts a = False"

fun is_expect :: "action \<Rightarrow> bool" where
  "is_expect (Expect n) = True"
| "is_expect a = False"

fun is_test :: "action \<Rightarrow> bool" where
  "is_test (Test name callback) = True"
| "is_test a = False"

fun is_schedule :: "action \<Rightarrow> bool" where
  "is_schedule (Schedule steps options) = True"
| "is_schedule a = False"

fun is_step_on :: "nat \<Rightarrow> action \<Rightarrow> bool" where
  "is_step_on n (Step h now x) = (h < n)"
| "is_step_on n a = False"

fun calls :: "(action \<Rightarrow> bool) \<Rightarrow> event list \<Rightarrow> nat" where
  "calls p [] = 0"
| "calls p (Call a # es) = (if p a then 1 else 0) + calls p es"
| "calls p (Try a # es) = (if p a then 1 else 0) + calls p es"
| "calls p (Emit ev err # es) = calls p es"

definition assertions :: "event list \<Rightarrow> nat" where
  "assertions es = calls counts es"

definition expects :: "event list \<Rightarrow> nat" where
  "expects es = calls is_expect es"

fun emitted_values :: "event list \<Rightarrow> jsval list" where
  "emitted_values [] = []"
| "emitted_values (Emit ev err # es) = err # emitted_values es"
| "emitted_values (e # es) = emitted_values es"

text \<open>
  The merge of the three error sources as the specification words it: the first non-null
  of the body's own exception, the capture-hook error and the post-check error, in that
  order of precedence.
\<close>

definition spec_precedence :: "jsval \<Rightarrow> jsval \<Rightarrow> jsval \<Rightarrow> jsval" where
  "spec_precedence own hook post = js_coalesce (js_coalesce own hook) post"

section \<open>Properties\<close>

lemma removeListener_last: "removeListener h (hs @ [h]) = hs"
  by (simp add: removeListener_def)

lemma process_off_on: "process_off h (process_on h r) = r"
  by (simp add: process_off_def process_on_def removeListener_last)

text \<open>
  C8. A test entry whose callback is \<open>undefined\<close> has the outcome error
  \<open>"NOT IMPLEMENTED"\<close> whatever the state of the runner; no body runs: apart from the count
  of tests the runner is left as it was (stack, listeners, console).
\<close>

theorem not_implemented_outcome:
  "runTest isEqual None r =
     (\<lparr>result_error = JStr ''NOT IMPLEMENTED'', result_shouldSortKeys = JBool False\<rparr>,
      r\<lparr>countTests := countTests r + 1\<rparr>)"
  by (simp add: runTest_def Let_def initial_locals_def js_coalesce_def process_off_on)

text \<open>
  C10. The tolerance of a schedule is \<open>options.tollerance || 20\<close>, read from the key
  \<open>tollerance\<close>: a truthy value under that key is the tolerance, a falsy one (0 included)
  or none gives 20; the schedule object the call creates carries that value (in either
  runner) and a \<open>step\<close> on it compares with it. The key \<open>tolerance\<close> changes nothing about
  the schedule a call creates; without the key \<open>tollerance\<close> the tolerance is 20 whatever
  \<open>tolerance\<close> holds, and so it is for a call without options.
\<close>

theorem tollerance_misspelled_key:
  "ctx_call isEqual (Schedule steps (Some (options(''tolerance'' \<mapsto> v)))) l stk =
     ctx_call isEqual (Schedule steps (Some options)) l stk
   \<and> legacy_ctx_call isEqual (Schedule steps (Some (options(''tolerance'' \<mapsto> v)))) l stk =
     legacy_ctx_call isEqual (Schedule steps (Some options)) l stk
   \<and> tollerance_of (options(''tolerance'' \<mapsto> v)) = tollerance_of options
   \<and> tollerance_of (options(''tollerance'' := None, ''tolerance'' \<mapsto> v)) = JNum 20
   \<and> tollerance_of (options(''tollerance'' \<mapsto> JNum 0)) = JNum 20
   \<and> tollerance_of (options_default None) = JNum 20
   \<and> tollerance_of (options(''tollerance'' \<mapsto> v)) = (if truthy v then v else JNum 20)
   \<and> handles (fst (snd (ctx_call isEqual
          (Schedule steps (Some (options(''tollerance'' \<mapsto> v)))) l stk)))
       = handles l @ [(if truthy v then v else JNum 20,
                       propagate_of (options(''tollerance'' \<mapsto> v)))]
   \<and> handles (fst (snd (legacy_ctx_call isEqual
          (Schedule steps (Some (options(''tollerance'' \<mapsto> v)))) l stk)))
       = handles l @ [(if truthy v then v else JNum 20,
                       propagate_of (options(''tollerance'' \<mapsto> v)))]
   \<and> ctx_call isEqual (Step (length (handles l)) now x)
         (fst (snd (ctx_call isEqual
            (Schedule steps (Some (options(''tollerance'' \<mapsto> v)))) l stk))) stk
       = (case step isEqual (if truthy v then v else JNum 20)
                 (propagate_of (options(''tollerance'' \<mapsto> v))) now x
                 (fst (snd (ctx_call isEqual
                    (Schedule steps (Some (options(''tollerance'' \<mapsto> v)))) l stk))) of
            (thrown, l') \<Rightarrow> (thrown, l', stk))"
  by (simp add: tollerance_of_def propagate_of_def options_default_def get_prop_def js_or_def)

text \<open>
  With the anchor at 1000 and the step \<open>[0, 'x']\<close> observed at 1030: under
  \<open>{ tollerance: 50 }\<close> the step passes, under \<open>{ tolerance: 50 }\<close> it is \<open>bad timing\<close>.
\<close>

theorem tollerance_misspelled_key_witness:
  "ctx_call (=) (Step 0 1030 [JStr ''x''])
      (fst (snd (ctx_call (=) (Schedule [[JNum 0, JStr ''x'']] (Some [''tollerance'' \<mapsto> JNum 50]))
                   (initial_locals\<lparr>startTime := JNum 1000\<rparr>) []))) []
    = (None,
       initial_locals\<lparr>schedule := Some [], startTime := JNum 1030,
                      handles := [(JNum 50, JBool True)]\<rparr>, [])
   \<and> ctx_call (=) (Step 0 1030 [JStr ''x''])
      (fst (snd (ctx_call (=) (Schedule [[JNum 0, JStr ''x'']] (Some [''tolerance'' \<mapsto> JNum 50]))
                   (initial_locals\<lparr>startTime := JNum 1000\<rparr>) []))) []
    = (Some (JErr [(''message'', JStr ''bad timing''),
                   (''expected'', JArr [JNum 0, JStr ''x'']),
                   (''actual'', JArr [JNum 30, JStr ''x''])]),
       initial_locals\<lparr>schedule := Some [], startTime := JNum 1000,
                      handles := [(JNum 20, JBool True)]\<rparr>, [])"
  using tollerance_misspelled_key[where isEqual = "(=)" and steps = "[[JNum 0, JStr ''x'']]"
      and options = "Map.empty" and v = "JNum 50"
      and l = "initial_locals\<lparr>startTime := JNum 1000\<rparr>" and stk = "[]"
      and now = 1030 and x = "[JStr ''x'']"]
  by (simp add: initial_locals_def tollerance_of_def propagate_of_def options_default_def
        get_prop_def js_or_def step_def Let_def js_sub_def js_add_def js_abs_def js_gt_def
        new_Error_def)

lemma truthy_propagate_of: "truthy (propagate_of options)"
  by (simp add: propagate_of_def js_or_def)

lemma step_passes_propagate:
  assumes "step isEqual tol prop now x l = (None, l')" and "truthy prop"
  shows "\<exists>s rest. schedule l = Some (s # rest) \<and> schedule l' = Some rest \<and>
           startTime l' =
             js_add (startTime l)
               (js_sub (js_sub (JNum now) (startTime l))
                  (case s of [] \<Rightarrow> JUndefined | t # _ \<Rightarrow> t))"
  using assms
  by (auto simp: step_def Let_def split: option.splits list.splits if_splits)

text \<open>
  A context call only ever appends to \<open>handles\<close>: a schedule object keeps its number and
  its two constants for the rest of the test.
\<close>

lemma ctx_call_handles_grow:
  "ctx_call isEqual a l stk = (t, l', stk') \<Longrightarrow> \<exists>more. handles l' = handles l @ more"
  by (cases "(isEqual, a, l, stk)" rule: ctx_call.cases)
     (auto simp: step_def Let_def counted_def did_throw_def didnt_throw_def
           split: if_splits cb_result.splits prod.splits option.splits list.splits)

text \<open>
  C1. The \<open>propagate\<close> flag a call \<open>schedule(steps, options)\<close> computes is truthy for every
  options object, and it is \<open>true\<close> when the caller passes \<open>propagate: false\<close>. So for the
  object \<open>h\<close> that the call returns, in any later state \<open>l\<close> of the test, a \<open>step\<close> that passes
  the value check and the timing check consumes the first expected step and moves the
  anchor: \<open>startTime\<close> becomes \<open>startTime + diff\<close> with \<open>diff = elapsed - time\<close> and
  \<open>elapsed = now - startTime\<close>.
\<close>

theorem propagate_always_truthy:
  assumes "ctx_call isEqual (Schedule steps options) l0 stk0 = (t0, l1, stk1)"
    and "h = length (handles l0)"
    and "h < length (handles l)"
    and "handles l ! h = handles l1 ! h"
    and "ctx_call isEqual (Step h now x) l stk = (None, l', stk')"
  shows "truthy (snd (handles l1 ! h))
    \<and> propagate_of (opts(''propagate'' \<mapsto> JBool False)) = JBool True
    \<and> (\<exists>s rest. schedule l = Some (s # rest) \<and> schedule l' = Some rest \<and>
           startTime l' =
             js_add (startTime l)
               (js_sub (js_sub (JNum now) (startTime l))
                  (case s of [] \<Rightarrow> JUndefined | t # _ \<Rightarrow> t)))"
proof -
  from assms(1,2) have flag: "snd (handles l1 ! h) = propagate_of (options_default options)"
    by auto
  then have t: "truthy (snd (handles l1 ! h))"
    by (simp add: truthy_propagate_of)
  from assms(3,5) obtain thrown where
    "step isEqual (fst (handles l ! h)) (snd (handles l ! h)) now x l = (None, l')"
    by (auto split: prod.splits)
  with t assms(4) have "\<exists>s rest. schedule l = Some (s # rest) \<and> schedule l' = Some rest \<and>
           startTime l' =
             js_add (startTime l)
               (js_sub (js_sub (JNum now) (startTime l))
                  (case s of [] \<Rightarrow> JUndefined | t # _ \<Rightarrow> t))"
    using step_passes_propagate by simp
  with t show ?thesis
    by (simp add: propagate_of_def get_prop_def js_or_def)
qed

theorem propagate_always_truthy_witness:
  "ctx_call (=) (Schedule [[JNum 100, JStr ''x'']] (Some [''propagate'' \<mapsto> JBool False]))
      initial_locals []
    = (None,
       initial_locals\<lparr>schedule := Some [[JNum 100, JStr ''x'']],
                      handles := [(JNum 20, JBool True)]\<rparr>, [])
   \<and> ctx_call (=) (Step 0 1105 [JStr ''x''])
      (initial_locals\<lparr>schedule := Some [[JNum 100, JStr ''x'']],
                      handles := [(JNum 20, JBool True)], startTime := JNum 1000\<rparr>) []
    = (None,
       initial_locals\<lparr>schedule := Some [],
                      handles := [(JNum 20, JBool True)], startTime := JNum 1005\<rparr>, [])
   \<and> truthy (snd (handles (initial_locals\<lparr>schedule := Some [[JNum 100, JStr ''x'']],
                      handles := [(JNum 20, JBool True)]\<rparr>) ! 0))"
  using propagate_always_truthy[of "(=)" "[[JNum 100, JStr ''x'']]"
      "Some [''propagate'' \<mapsto> JBool False]" initial_locals "[]" None
      "initial_locals\<lparr>schedule := Some [[JNum 100, JStr ''x'']],
                      handles := [(JNum 20, JBool True)]\<rparr>" "[]" 0
      "initial_locals\<lparr>schedule := Some [[JNum 100, JStr ''x'']],
                      handles := [(JNum 20, JBool True)], startTime := JNum 1000\<rparr>"
      1105 "[JStr ''x'']" "[]"
      "initial_locals\<lparr>schedule := Some [],
                      handles := [(JNum 20, JBool True)], startTime := JNum 1005\<rparr>" "[]"]
  by (simp add: initial_locals_def tollerance_of_def propagate_of_def options_default_def
        get_prop_def js_or_def step_def Let_def js_sub_def js_add_def js_abs_def js_gt_def)

lemma legacy_step_passes_propagate:
  assumes "legacy_step isEqual tol prop now x l = (None, l')" and "truthy prop"
  shows "\<exists>s rest. schedule l = Some (s # rest) \<and> schedule l' = Some rest \<and>
           startTime l' =
             js_add (startTime l)
               (js_sub (js_sub (JNum now) (startTime l))
                  (case s of [] \<Rightarrow> JUndefined | t # _ \<Rightarrow> t))"
proof (cases "schedule l")
  case None
  with assms show ?thesis by (simp add: legacy_step_def)
next
  case (Some ss)
  show ?thesis
  proof (cases ss)
    case Nil
    with Some assms show ?thesis by (simp add: legacy_step_def)
  next
    case (Cons s rest)
    with Some assms show ?thesis
      by (auto simp: legacy_step_def Let_def split: if_splits)
  qed
qed

lemma legacy_schedule_propagates:
  assumes "legacy_ctx_call isEqual (Schedule steps options) l0 stk0 = (t0, l1, stk1)"
    and "h = length (handles l0)"
    and "h < length (handles l)"
    and "handles l ! h = handles l1 ! h"
    and "legacy_ctx_call isEqual (Step h now x) l stk = (None, l', stk')"
  shows "truthy (snd (handles l1 ! h))
    \<and> (\<exists>s rest. schedule l = Some (s # rest) \<and> schedule l' = Some rest \<and>
           startTime l' =
             js_add (startTime l)
               (js_sub (js_sub (JNum now) (startTime l))
                  (case s of [] \<Rightarrow> JUndefined | t # _ \<Rightarrow> t)))"
proof -
  from assms(1,2) have "snd (handles l1 ! h) = propagate_of (options_default options)"
    by auto
  then have t: "truthy (snd (handles l1 ! h))"
    by (simp add: truthy_propagate_of)
  from assms(3,5) have
    "legacy_step isEqual (fst (handles l ! h)) (snd (handles l ! h)) now
        (case x of [] \<Rightarrow> JUndefined | x0 # _ \<Rightarrow> x0) l = (None, l')"
    by (simp split: prod.splits)
  with t assms(4) show ?thesis
    using legacy_step_passes_propagate by simp
qed

text \<open>
  C5. A call \<open>step(...x)\<close> on a schedule that still has an expected step \<open>s\<close> at its front
  (\<open>time\<close> its first element, \<open>value\<close> the rest) removes \<open>s\<close> from the front, whatever the
  result, and checks in this order: when \<open>x\<close> is not deep-equal to \<open>value\<close> it throws
  \<open>unexpected step\<close> with \<open>expected = [time, ...value]\<close> and \<open>actual = [elapsed, ...x]\<close>;
  otherwise, when \<open>Math.abs(elapsed - time) > tollerance\<close> it throws \<open>bad timing\<close> with the
  same two fields; otherwise it throws nothing. The steps are those of the \<open>schedule\<close>
  call, in its order, and the tolerance of a call without options is 20. For numbers the
  timing test is \<open>\<bar>now - startTime - time\<bar> > tollerance\<close>.
\<close>

theorem step_checks_in_order:
  assumes "schedule l = Some (s # rest)"
    and "time = (case s of [] \<Rightarrow> JUndefined | t # _ \<Rightarrow> t)"
    and "value = (case s of [] \<Rightarrow> [] | _ # vs \<Rightarrow> vs)"
    and "elapsed = js_sub (JNum now) (startTime l)"
    and "step isEqual tollerance propagate now x l = (thrown, l')"
  shows "schedule l' = Some rest
    \<and> (\<not> isEqual (JArr value) (JArr x) \<longrightarrow>
          thrown = Some (JErr [(''message'', JStr ''unexpected step''),
                               (''expected'', JArr (time # value)),
                               (''actual'', JArr (elapsed # x))]))
    \<and> (isEqual (JArr value) (JArr x) \<and> js_gt (js_abs (js_sub elapsed time)) tollerance \<longrightarrow>
          thrown = Some (JErr [(''message'', JStr ''bad timing''),
                               (''expected'', JArr (time # value)),
                               (''actual'', JArr (elapsed # x))]))
    \<and> (isEqual (JArr value) (JArr x) \<and> \<not> js_gt (js_abs (js_sub elapsed time)) tollerance \<longrightarrow>
          thrown = None)
    \<and> (\<forall>t0 t k. startTime l = JNum t0 \<and> time = JNum t \<and> tollerance = JNum k \<longrightarrow>
          js_gt (js_abs (js_sub elapsed time)) tollerance = (\<bar>now - t0 - t\<bar> > k))
    \<and> schedule (fst (snd (ctx_call isEqual (Schedule steps options) l0 stk))) = Some steps
    \<and> tollerance_of (options_default None) = JNum 20"
proof -
  have order: "schedule l' = Some rest
    \<and> (\<not> isEqual (JArr value) (JArr x) \<longrightarrow>
          thrown = Some (JErr [(''message'', JStr ''unexpected step''),
                               (''expected'', JArr (time # value)),
                               (''actual'', JArr (elapsed # x))]))
    \<and> (isEqual (JArr value) (JArr x) \<and> js_gt (js_abs (js_sub elapsed time)) tollerance \<longrightarrow>
          thrown = Some (JErr [(''message'', JStr ''bad timing''),
                               (''expected'', JArr (time # value)),
                               (''actual'', JArr (elapsed # x))]))
    \<and> (isEqual (JArr value) (JArr x) \<and> \<not> js_gt (js_abs (js_sub elapsed time)) tollerance \<longrightarrow>
          thrown = None)"
    using assms by (auto simp: step_def Let_def new_Error_def split: if_splits)
  have numbers: "\<forall>t0 t k. startTime l = JNum t0 \<and> time = JNum t \<and> tollerance = JNum k \<longrightarrow>
          js_gt (js_abs (js_sub elapsed time)) tollerance = (\<bar>now - t0 - t\<bar> > k)"
    using assms(4) by (simp add: js_sub_def js_abs_def js_gt_def)
  have declared: "schedule (fst (snd (ctx_call isEqual (Schedule steps options) l0 stk))) = Some steps"
    by simp
  have default: "tollerance_of (options_default None) = JNum 20"
    by (simp add: tollerance_of_def options_default_def get_prop_def js_or_def)
  from order numbers declared default show ?thesis by blast
qed

theorem step_checks_in_order_witness:
  "step (=) (JNum 20) (JBool True) 1003 [JStr ''z'']
      (initial_locals\<lparr>schedule := Some [[JNum 0, JStr ''x''], [JNum 100, JStr ''y'']],
                      startTime := JNum 1000\<rparr>)
    = (Some (JErr [(''message'', JStr ''unexpected step''),
                   (''expected'', JArr [JNum 0, JStr ''x'']),
                   (''actual'', JArr [JNum 3, JStr ''z''])]),
       initial_locals\<lparr>schedule := Some [[JNum 100, JStr ''y'']], startTime := JNum 1000\<rparr>)
   \<and> step (=) (JNum 20) (JBool True) 1021 [JStr ''x'']
      (initial_locals\<lparr>schedule := Some [[JNum 0, JStr ''x''], [JNum 100, JStr ''y'']],
                      startTime := JNum 1000\<rparr>)
    = (Some (JErr [(''message'', JStr ''bad timing''),
                   (''expected'', JArr [JNum 0, JStr ''x'']),
                   (''actual'', JArr [JNum 21, JStr ''x''])]),
       initial_locals\<lparr>schedule := Some [[JNum 100, JStr ''y'']], startTime := JNum 1000\<rparr>)
   \<and> step (=) (JNum 20) (JBool True) 1020 [JStr ''x'']
      (initial_locals\<lparr>schedule := Some [[JNum 0, JStr ''x''], [JNum 100, JStr ''y'']],
                      startTime := JNum 1000\<rparr>)
    = (None,
       initial_locals\<lparr>schedule := Some [[JNum 100, JStr ''y'']], startTime := JNum 1020\<rparr>)"
  using step_checks_in_order[of
      "initial_locals\<lparr>schedule := Some [[JNum 0, JStr ''x''], [JNum 100, JStr ''y'']],
                      startTime := JNum 1000\<rparr>"
      "[JNum 0, JStr ''x'']" "[[JNum 100, JStr ''y'']]" "JNum 0" "[JStr ''x'']" "JNum 3" 1003
      "(=)" "JNum 20" "JBool True" "[JStr ''z'']"
      "Some (JErr [(''message'', JStr ''unexpected step''),
                   (''expected'', JArr [JNum 0, JStr ''x'']),
                   (''actual'', JArr [JNum 3, JStr ''z''])])"
      "initial_locals\<lparr>schedule := Some [[JNum 100, JStr ''y'']], startTime := JNum 1000\<rparr>"]
  by (simp add: initial_locals_def step_def Let_def new_Error_def js_sub_def js_add_def
        js_abs_def js_gt_def)

subsection \<open>The run of a body inside runTest\<close>

lemma run_events_append:
  "run_events isEqual h (es @ es') l r =
     (case run_events isEqual h es l r of
        (Some e, l1, r1) \<Rightarrow> (Some e, l1, r1)
      | (None, l1, r1) \<Rightarrow> run_events isEqual h es' l1 r1)"
  by (induction isEqual h es l r rule: run_events.induct)
     (auto split: prod.splits option.splits)

lemma try_block_flat:
  "try_block isEqual h (Some b) l r =
     (case run_events isEqual h (events_of b) l r of
        (Some e, l1, r1) \<Rightarrow> (Some e, l1, r1)
      | (None, l1, r1) \<Rightarrow>
          ((case thrown_by b of Some v \<Rightarrow> Some v | None \<Rightarrow> post_checks l1), l1, r1))"
proof (cases b)
  case (Body es out)
  then show ?thesis
    by (cases out)
       (auto simp: run_events_append split: prod.splits option.splits settle.splits)
qed

lemma ctx_call_error: "ctx_call isEqual a l stk = (t, l', stk') \<Longrightarrow> error l' = error l"
  by (cases "(isEqual, a, l, stk)" rule: ctx_call.cases)
     (auto simp: step_def Let_def counted_def did_throw_def didnt_throw_def
           split: if_splits cb_result.splits prod.splits option.splits list.splits)

lemma run_events_runner:
  "run_events isEqual h es l r = (t, l', r') \<Longrightarrow> r' = r\<lparr>stack := stack r'\<rparr>"
proof (induction isEqual h es l r arbitrary: t l' r' rule: run_events.induct)
  case (1 isEqual h l r)
  then show ?case by simp
next
  case (2 isEqual h a es l r)
  obtain t1 l1 stk1 where c: "ctx_call isEqual a l (stack r) = (t1, l1, stk1)"
    by (cases "ctx_call isEqual a l (stack r)") auto
  show ?case
  proof (cases t1)
    case (Some e)
    with 2 c show ?thesis by auto
  next
    case None
    with 2 c have run: "run_events isEqual h es l1 (r\<lparr>stack := stk1\<rparr>) = (t, l', r')" by simp
    have "r' = r\<lparr>stack := stk1\<rparr>\<lparr>stack := stack r'\<rparr>"
      using "2.IH"[of t1 "(l1, stk1)" l1 stk1 t l' r'] c None run by simp
    then show ?thesis by simp
  qed
next
  case (3 isEqual h a es l r)
  obtain t1 l1 stk1 where c: "ctx_call isEqual a l (stack r) = (t1, l1, stk1)"
    by (cases "ctx_call isEqual a l (stack r)") auto
  with 3 have run: "run_events isEqual h es l1 (r\<lparr>stack := stk1\<rparr>) = (t, l', r')" by simp
  have "r' = r\<lparr>stack := stk1\<rparr>\<lparr>stack := stack r'\<rparr>"
    using "3.IH"[of t1 "(l1, stk1)" l1 stk1 t l' r'] c run by simp
  then show ?case by simp
next
  case (4 isEqual h ev err es l r)
  then show ?case by simp
qed

lemma runTest_flat:
  assumes "body_run isEqual b r = (t, lf, rf)"
  shows "runTest isEqual (Some b) r =
    (\<lparr>result_error =
        (case t of
           Some e \<Rightarrow> js_coalesce (error lf) e
         | None \<Rightarrow>
             (case thrown_by b of
                Some v \<Rightarrow> js_coalesce (error lf) v
              | None \<Rightarrow>
                  (case post_checks lf of
                     Some e \<Rightarrow> js_coalesce (error lf) e
                   | None \<Rightarrow> error lf))),
       result_shouldSortKeys = shouldSortKeys lf\<rparr>,
     r\<lparr>countTests := countTests r + 1, stack := stack rf\<rparr>)"
proof -
  let ?h = "countTests r + 1"
  let ?r2 = "process_on ?h (r\<lparr>countTests := ?h\<rparr>)"
  from assms have run: "run_events isEqual ?h (events_of b) initial_locals ?r2 = (t, lf, rf)"
    by (simp add: body_run_def)
  from run_events_runner[OF run] have rf: "rf = ?r2\<lparr>stack := stack rf\<rparr>" .
  have off: "process_off ?h rf = r\<lparr>countTests := ?h, stack := stack rf\<rparr>"
    by (subst rf) (simp add: process_off_def process_on_def removeListener_last)
  show ?thesis
    using run off
    by (simp add: runTest_def Let_def try_block_flat split: option.splits)
qed

subsection \<open>Which error a test reports\<close>

lemma listeners_stack [simp]: "listeners ev (r\<lparr>stack := stk\<rparr>) = listeners ev r"
  by (simp add: listeners_def split: emitted.splits)

lemma run_events_error_kept:
  "run_events isEqual h es l r = (t, l', r') \<Longrightarrow> \<not> nullish (error l) \<Longrightarrow> error l' = error l"
proof (induction isEqual h es l r arbitrary: t l' r' rule: run_events.induct)
  case (1 isEqual h l r)
  then show ?case by simp
next
  case (2 isEqual h a es l r)
  obtain t1 l1 stk1 where c: "ctx_call isEqual a l (stack r) = (t1, l1, stk1)"
    by (cases "ctx_call isEqual a l (stack r)") auto
  from ctx_call_error[OF c] have e: "error l1 = error l" .
  show ?case
  proof (cases t1)
    case (Some x)
    with "2.prems"(1) c have "l' = l1" by simp
    with e show ?thesis by simp
  next
    case None
    with "2.prems"(1) c have run:
      "run_events isEqual h es l1 (r\<lparr>stack := stk1\<rparr>) = (t, l', r')" by simp
    have "error l' = error l1"
      using "2.IH"[of t1 "(l1, stk1)" l1 stk1 t l' r'] c None run e "2.prems"(2) by simp
    with e show ?thesis by simp
  qed
next
  case (3 isEqual h a es l r)
  obtain t1 l1 stk1 where c: "ctx_call isEqual a l (stack r) = (t1, l1, stk1)"
    by (cases "ctx_call isEqual a l (stack r)") auto
  from ctx_call_error[OF c] have e: "error l1 = error l" .
  from "3.prems"(1) c have run:
    "run_events isEqual h es l1 (r\<lparr>stack := stk1\<rparr>) = (t, l', r')" by simp
  have "error l' = error l1"
    using "3.IH"[of t1 "(l1, stk1)" l1 stk1 t l' r'] c run e "3.prems"(2) by simp
  with e show ?case by simp
next
  case (4 isEqual h ev err es l r)
  let ?l = "if h \<in> set (listeners ev r) then handleError err l else l"
  from "4.prems"(2) have k: "error ?l = error l"
    by (simp add: handleError_def js_coalesce_def)
  from "4.prems"(1) have "run_events isEqual h es ?l r = (t, l', r')" by simp
  from "4.IH"[OF this] k "4.prems"(2) show ?case by simp
qed

lemma run_events_emitted:
  "run_events isEqual h es l r = (None, l', r') \<Longrightarrow>
   h \<in> set (unhandledRejection r) \<Longrightarrow> h \<in> set (uncaughtException r) \<Longrightarrow>
     error l' = foldl js_coalesce (error l) (emitted_values es)"
proof (induction isEqual h es l r arbitrary: l' r' rule: run_events.induct)
  case (1 isEqual h l r)
  then show ?case by simp
next
  case (2 isEqual h a es l r)
  obtain t1 l1 stk1 where c: "ctx_call isEqual a l (stack r) = (t1, l1, stk1)"
    by (cases "ctx_call isEqual a l (stack r)") auto
  from ctx_call_error[OF c] have e: "error l1 = error l" .
  from "2.prems"(1) c have n: "t1 = None" by (cases t1) auto
  with "2.prems"(1) c have run:
    "run_events isEqual h es l1 (r\<lparr>stack := stk1\<rparr>) = (None, l', r')" by simp
  have "error l' = foldl js_coalesce (error l1) (emitted_values es)"
    using "2.IH"[of t1 "(l1, stk1)" l1 stk1 l' r'] c n run "2.prems"(2,3) by simp
  with e show ?case by simp
next
  case (3 isEqual h a es l r)
  obtain t1 l1 stk1 where c: "ctx_call isEqual a l (stack r) = (t1, l1, stk1)"
    by (cases "ctx_call isEqual a l (stack r)") auto
  from ctx_call_error[OF c] have e: "error l1 = error l" .
  from "3.prems"(1) c have run:
    "run_events isEqual h es l1 (r\<lparr>stack := stk1\<rparr>) = (None, l', r')" by simp
  have "error l' = foldl js_coalesce (error l1) (emitted_values es)"
    using "3.IH"[of t1 "(l1, stk1)" l1 stk1 l' r'] c run "3.prems"(2,3) by simp
  with e show ?case by simp
next
  case (4 isEqual h ev err es l r)
  from "4.prems"(2,3) have inst: "h \<in> set (listeners ev r)"
    by (cases ev) (simp_all add: listeners_def)
  with "4.prems"(1) have "run_events isEqual h es (handleError err l) r = (None, l', r')"
    by simp
  from "4.IH"[OF _ "4.prems"(2,3), of l' r'] this inst show ?case
    by (simp add: handleError_def)
qed

lemma run_events_hook_first:
  assumes "run_events isEqual h (es1 @ Emit ev e # es2) l r = (t, lf, rf)"
    and "run_events isEqual h es1 l r = (None, l1, r1)"
    and "h \<in> set (listeners ev r)"
    and "nullish (error l1)" and "\<not> nullish e"
  shows "error lf = e"
proof -
  from run_events_runner[OF assms(2)] have "r1 = r\<lparr>stack := stack r1\<rparr>" .
  then have "listeners ev r1 = listeners ev r" by (metis listeners_stack)
  with assms(3) have inst: "h \<in> set (listeners ev r1)" by simp
  from assms(1,2) inst have
    "run_events isEqual h es2 (handleError e l1) r1 = (t, lf, rf)"
    by (simp add: run_events_append)
  moreover from assms(4,5) have "error (handleError e l1) = e"
    by (simp add: handleError_def js_coalesce_def)
  ultimately show ?thesis
    using run_events_error_kept assms(5) by metis
qed

text \<open>
  C2 (as the code has it). \<open>error\<close> is written with \<open>??=\<close> in the order in which things
  happen, so the first value recorded that is neither \<open>null\<close> nor \<open>undefined\<close> is the
  outcome. A value delivered to \<open>handleError\<close> while the body runs is recorded at once;
  what the body throws, the rejection of the awaited race and the two checks after the
  body all reach \<open>error\<close> later, through the one \<open>catch\<close> clause. Hence: when the hook
  has recorded an error by the end of the body (\<open>error lf\<close>), that error is the outcome.
  Otherwise the outcome is the exception that escaped from a context call, else the
  value the body threw or the race rejected with, else the count mismatch, else the
  missed steps. The hook's record is the first non-nullish value emitted: such a value,
  when it finds \<open>error\<close> still nullish, stays to the end of the body, and when no
  exception escapes from a call the record is the fold of \<open>??=\<close> over all emitted values.
  An absent body gives \<open>"NOT IMPLEMENTED"\<close>.
\<close>

theorem error_first_recorded_wins:
  assumes "body_run isEqual b r = (t, lf, rf)"
  shows "result_error (fst (runTest isEqual (Some b) r)) =
      (if \<not> nullish (error lf) then error lf
       else (case t of
               Some e \<Rightarrow> e
             | None \<Rightarrow>
                 (case thrown_by b of
                    Some v \<Rightarrow> v
                  | None \<Rightarrow>
                      (case count_check lf of
                         Some e \<Rightarrow> e
                       | None \<Rightarrow>
                           (case missed_check lf of
                              Some e \<Rightarrow> e
                            | None \<Rightarrow> error lf)))))
    \<and> (\<forall>es1 ev e es2 l1 r1.
          events_of b = es1 @ Emit ev e # es2 \<and>
          run_events isEqual (countTests r + 1) es1 initial_locals
            (process_on (countTests r + 1) (r\<lparr>countTests := countTests r + 1\<rparr>)) = (None, l1, r1) \<and>
          nullish (error l1) \<and> \<not> nullish e \<longrightarrow> error lf = e)
    \<and> (t = None \<longrightarrow> error lf = foldl js_coalesce JNull (emitted_values (events_of b)))
    \<and> result_error (fst (runTest isEqual None r)) = JStr ''NOT IMPLEMENTED''"
proof -
  let ?h = "countTests r + 1"
  let ?r2 = "process_on ?h (r\<lparr>countTests := ?h\<rparr>)"
  from assms have run: "run_events isEqual ?h (events_of b) initial_locals ?r2 = (t, lf, rf)"
    by (simp add: body_run_def)
  have inst: "?h \<in> set (listeners ev ?r2)" for ev
    by (cases ev) (simp_all add: listeners_def process_on_def)
  have first: "result_error (fst (runTest isEqual (Some b) r)) =
      (if \<not> nullish (error lf) then error lf
       else (case t of
               Some e \<Rightarrow> e
             | None \<Rightarrow>
                 (case thrown_by b of
                    Some v \<Rightarrow> v
                  | None \<Rightarrow>
                      (case count_check lf of
                         Some e \<Rightarrow> e
                       | None \<Rightarrow>
                           (case missed_check lf of
                              Some e \<Rightarrow> e
                            | None \<Rightarrow> error lf)))))"
    by (simp add: runTest_flat[OF assms] js_coalesce_def post_checks_def split: option.splits)
  have hook: "error lf = e"
    if "events_of b = es1 @ Emit ev e # es2"
      and "run_events isEqual ?h es1 initial_locals ?r2 = (None, l1, r1)"
      and "nullish (error l1)" and "\<not> nullish e" for es1 ev e es2 l1 r1
    using run_events_hook_first[of isEqual ?h es1 ev e es2 initial_locals ?r2 t lf rf l1 r1]
      run that inst by simp
  have all: "error lf = foldl js_coalesce JNull (emitted_values (events_of b))" if "t = None"
    using run_events_emitted[of isEqual ?h "events_of b" initial_locals ?r2 lf rf] run that
    by (simp add: process_on_def initial_locals_def)
  have absent: "result_error (fst (runTest isEqual None r)) = JStr ''NOT IMPLEMENTED''"
    by (simp add: runTest_def Let_def js_coalesce_def)
  from first hook all absent show ?thesis by blast
qed

theorem error_first_recorded_wins_witness:
  "result_error (fst (runTest (=)
      (Some (Body [Call (Expect (JNum 1))]
         (Promise [Emit UncaughtException (JStr ''late callback'')] Resolves)))
      new_TestRunner)) = JStr ''late callback''
   \<and> body_run (=)
      (Body [Call (Expect (JNum 1))]
         (Promise [Emit UncaughtException (JStr ''late callback'')] Resolves))
      new_TestRunner
     = (None,
        initial_locals\<lparr>error := JStr ''late callback'', countExpected := JNum 1\<rparr>,
        new_TestRunner\<lparr>countTests := 1, unhandledRejection := [1], uncaughtException := [1]\<rparr>)"
  using error_first_recorded_wins[of "(=)"
      "Body [Call (Expect (JNum 1))]
         (Promise [Emit UncaughtException (JStr ''late callback'')] Resolves)"
      new_TestRunner None
      "initial_locals\<lparr>error := JStr ''late callback'', countExpected := JNum 1\<rparr>"
      "new_TestRunner\<lparr>countTests := 1, unhandledRejection := [1], uncaughtException := [1]\<rparr>"]
  by (simp add: body_run_def new_TestRunner_def initial_locals_def process_on_def
        listeners_def handleError_def js_coalesce_def)

text \<open>
  C2 as stated fails: with the body's own exception ahead of the capture hook, a test
  whose promise rejects with \<open>own\<close> after an unhandled rejection \<open>background\<close> was delivered
  would report \<open>own\<close>; the runner reports \<open>background\<close>.
\<close>

theorem capture_hook_precedes_own_rejection:
  "result_error (fst (runTest (=)
      (Some (Body [] (Promise [Emit UnhandledRejection (JStr ''background'')]
                        (Rejects (JStr ''own'')))))
      new_TestRunner)) = JStr ''background''
   \<and> spec_precedence (JStr ''own'') (JStr ''background'') JNull = JStr ''own''
   \<and> result_error (fst (runTest (=)
      (Some (Body [] (Promise [Emit UnhandledRejection (JStr ''background'')]
                        (Rejects (JStr ''own'')))))
      new_TestRunner)) \<noteq> spec_precedence (JStr ''own'') (JStr ''background'') JNull"
  by (simp add: runTest_def Let_def new_TestRunner_def initial_locals_def process_on_def
        process_off_def removeListener_def listeners_def handleError_def js_coalesce_def
        spec_precedence_def)

subsection \<open>Schedule exhaustion\<close>

text \<open>
  The expected steps are one variable of the test: every \<open>schedule\<close> call replaces it, and
  every schedule object reads and shifts it. A context call other than \<open>schedule\<close> leaves
  the schedule objects as they are, and only a \<open>step\<close> call on an existing object changes
  the expected steps: it removes the first one, if there is one, whether its checks pass
  or fail.
\<close>

lemma ctx_call_schedule:
  "ctx_call isEqual a l stk = (t, l', stk') \<Longrightarrow> \<not> is_schedule a \<Longrightarrow>
     handles l' = handles l \<and>
     schedule l' = (if is_step_on (length (handles l)) a then map_option (drop 1) (schedule l)
                    else schedule l)"
  by (cases "(isEqual, a, l, stk)" rule: ctx_call.cases)
     (auto simp: step_def Let_def counted_def did_throw_def didnt_throw_def
           split: if_splits cb_result.splits prod.splits option.splits list.splits)

lemma run_events_schedule:
  "run_events isEqual h es l r = (None, l', r') \<Longrightarrow> calls is_schedule es = 0 \<Longrightarrow>
     handles l' = handles l \<and>
     schedule l' = map_option (drop (calls (is_step_on (length (handles l))) es)) (schedule l)"
proof (induction isEqual h es l r arbitrary: l' r' rule: run_events.induct)
  case (1 isEqual h l r)
  then show ?case by (cases "schedule l") auto
next
  case (2 isEqual h a es l r)
  obtain t1 l1 stk1 where c: "ctx_call isEqual a l (stack r) = (t1, l1, stk1)"
    by (cases "ctx_call isEqual a l (stack r)") auto
  from "2.prems"(2) have ne: "\<not> is_schedule a" "calls is_schedule es = 0"
    by (auto split: if_splits)
  from "2.prems"(1) c have n: "t1 = None" by (cases t1) auto
  with "2.prems"(1) c have run:
    "run_events isEqual h es l1 (r\<lparr>stack := stk1\<rparr>) = (None, l', r')" by simp
  have ih: "handles l' = handles l1 \<and>
     schedule l' = map_option (drop (calls (is_step_on (length (handles l1))) es)) (schedule l1)"
    using "2.IH"[of t1 "(l1, stk1)" l1 stk1 l' r'] c n run ne(2) by simp
  from ctx_call_schedule[OF c ne(1)] ih show ?case
    by (cases "schedule l") (auto simp: add.commute)
next
  case (3 isEqual h a es l r)
  obtain t1 l1 stk1 where c: "ctx_call isEqual a l (stack r) = (t1, l1, stk1)"
    by (cases "ctx_call isEqual a l (stack r)") auto
  from "3.prems"(2) have ne: "\<not> is_schedule a" "calls is_schedule es = 0"
    by (auto split: if_splits)
  from "3.prems"(1) c have run:
    "run_events isEqual h es l1 (r\<lparr>stack := stk1\<rparr>) = (None, l', r')" by simp
  have ih: "handles l' = handles l1 \<and>
     schedule l' = map_option (drop (calls (is_step_on (length (handles l1))) es)) (schedule l1)"
    using "3.IH"[of t1 "(l1, stk1)" l1 stk1 l' r'] c run ne(2) by simp
  from ctx_call_schedule[OF c ne(1)] ih show ?case
    by (cases "schedule l") (auto simp: add.commute)
next
  case (4 isEqual h ev err es l r)
  let ?l = "if h \<in> set (listeners ev r) then handleError err l else l"
  have k: "handles ?l = handles l" "schedule ?l = schedule l"
    by (simp_all add: handleError_def)
  from "4.prems" have "run_events isEqual h es ?l r = (None, l', r')" "calls is_schedule es = 0"
    by simp_all
  from "4.IH"[OF this] k show ?case by simp
qed

text \<open>
  C6 (as the code has it). Take the last \<open>schedule(steps, options)\<close> call of a body and
  the events \<open>es\<close> after it, and let \<open>k\<close> be the number of \<open>step\<close> calls in \<open>es\<close> on an
  existing schedule object. When no exception has escaped, the expected steps left are
  \<open>steps\<close> without its first \<open>k\<close>. When all are consumed (\<open>k\<close> is at least
  the number of steps), a further \<open>step\<close> call on any schedule object of the test throws
  \<open>no steps left\<close> with \<open>step = [elapsed, ...x]\<close> and changes nothing. When the body completes
  with steps left, the \<open>missed steps\<close> check is reached only after the assertion count
  check has passed, and its error is the outcome only when the capture hook has recorded
  nothing: then the outcome is \<open>missed steps\<close> with \<open>steps\<close> the steps left, in order.
\<close>

theorem schedule_exhaustion:
  assumes "events_of b = pre @ Call (Schedule steps options) # es"
    and "calls is_schedule es = 0"
    and "body_run isEqual b r = (None, lf, rf)"
    and "k = calls (is_step_on (length (handles lf))) es"
  shows "schedule lf = Some (drop k steps)
    \<and> (length steps \<le> k \<and> h < length (handles lf) \<longrightarrow>
        ctx_call isEqual (Step h now x) lf stk =
          (Some (JErr [(''message'', JStr ''no steps left''),
                       (''step'', JArr (js_sub (JNum now) (startTime lf) # x))]), lf, stk))
    \<and> (thrown_by b = None \<and> k < length steps \<and> count_check lf = None \<and> nullish (error lf) \<longrightarrow>
        result_error (fst (runTest isEqual (Some b) r)) =
          JErr [(''message'', JStr ''missed steps''),
                (''steps'', JArr (map JArr (drop k steps)))])"
proof -
  let ?h = "countTests r + 1"
  let ?r2 = "process_on ?h (r\<lparr>countTests := ?h\<rparr>)"
  from assms(1,3) have run:
    "run_events isEqual ?h (pre @ Call (Schedule steps options) # es) initial_locals ?r2
       = (None, lf, rf)"
    by (simp add: body_run_def)
  obtain tp lp rp where p: "run_events isEqual ?h pre initial_locals ?r2 = (tp, lp, rp)"
    by (cases "run_events isEqual ?h pre initial_locals ?r2") auto
  with run have tp: "tp = None"
    by (cases tp) (auto simp: run_events_append)
  let ?l1 = "lp\<lparr>schedule := Some steps,
        handles := handles lp @ [(tollerance_of (options_default options),
                                 propagate_of (options_default options))]\<rparr>"
  from run p tp have after: "run_events isEqual ?h es ?l1 rp = (None, lf, rf)"
    by (simp add: run_events_append)
  from run_events_schedule[OF after assms(2)] have
    hs: "handles lf = handles ?l1" and
    sc: "schedule lf = map_option (drop (calls (is_step_on (length (handles ?l1))) es)) (schedule ?l1)"
    by simp_all
  from sc hs assms(4) have left: "schedule lf = Some (drop k steps)" by simp
  have none: "ctx_call isEqual (Step h now x) lf stk =
          (Some (JErr [(''message'', JStr ''no steps left''),
                       (''step'', JArr (js_sub (JNum now) (startTime lf) # x))]), lf, stk)"
    if "length steps \<le> k" "h < length (handles lf)"
    using that left by (simp add: step_def Let_def new_Error_def)
  have missed: "result_error (fst (runTest isEqual (Some b) r)) =
          JErr [(''message'', JStr ''missed steps''),
                (''steps'', JArr (map JArr (drop k steps)))]"
    if "thrown_by b = None" "k < length steps" "count_check lf = None" "nullish (error lf)"
  proof -
    from that(2) obtain s rest where d: "drop k steps = s # rest"
      by (cases "drop k steps") auto
    with left that show ?thesis
      by (simp add: runTest_flat[OF assms(3)] post_checks_def missed_check_def new_Error_def
            js_coalesce_def)
  qed
  from left none missed show ?thesis by blast
qed

theorem schedule_exhaustion_witness:
  "ctx_call (=) (Step 0 1100 [JStr ''y''])
      (initial_locals\<lparr>schedule := Some [],
                      handles := [(JNum 20, JBool True)], startTime := JNum 1001\<rparr>) []
    = (Some (JErr [(''message'', JStr ''no steps left''),
                   (''step'', JArr [JNum 99, JStr ''y''])]),
       initial_locals\<lparr>schedule := Some [],
                      handles := [(JNum 20, JBool True)], startTime := JNum 1001\<rparr>, [])
   \<and> body_run (=)
        (Body [Call (Schedule [[JNum 0, JStr ''x'']] None),
             Call (Start 0 1000), Call (Step 0 1001 [JStr ''x''])]
         (Return JUndefined))
        new_TestRunner
    = (None, initial_locals\<lparr>schedule := Some [],
                      handles := [(JNum 20, JBool True)], startTime := JNum 1001\<rparr>,
       new_TestRunner\<lparr>countTests := 1, unhandledRejection := [1], uncaughtException := [1]\<rparr>)
   \<and> result_error (fst (runTest (=)
        (Some (Body [Call (Schedule [[JNum 0, JStr ''x''], [JNum 100, JStr ''y'']] None),
             Call (Start 0 1000), Call (Step 0 1001 [JStr ''x''])]
         (Return JUndefined)))
        new_TestRunner))
    = JErr [(''message'', JStr ''missed steps''),
            (''steps'', JArr [JArr [JNum 100, JStr ''y'']])]"
  using schedule_exhaustion[where isEqual = "(=)" and b = "Body [Call (Schedule [[JNum 0, JStr ''x'']] None),
             Call (Start 0 1000), Call (Step 0 1001 [JStr ''x''])]
         (Return JUndefined)"
      and pre = "[]" and steps = "[[JNum 0, JStr ''x'']]" and options = None
      and es = "[Call (Start 0 1000), Call (Step 0 1001 [JStr ''x''])]"
      and r = new_TestRunner and lf = "initial_locals\<lparr>schedule := Some [],
                      handles := [(JNum 20, JBool True)], startTime := JNum 1001\<rparr>"
      and rf = "new_TestRunner\<lparr>countTests := 1, unhandledRejection := [1], uncaughtException := [1]\<rparr>"
      and k = 1 and h = 0 and now = 1100 and x = "[JStr ''y'']" and stk = "[]"]
    schedule_exhaustion[where isEqual = "(=)" and b = "Body [Call (Schedule [[JNum 0, JStr ''x''], [JNum 100, JStr ''y'']] None),
             Call (Start 0 1000), Call (Step 0 1001 [JStr ''x''])]
         (Return JUndefined)"
      and pre = "[]" and steps = "[[JNum 0, JStr ''x''], [JNum 100, JStr ''y'']]" and options = None
      and es = "[Call (Start 0 1000), Call (Step 0 1001 [JStr ''x''])]"
      and r = new_TestRunner and lf = "initial_locals\<lparr>schedule := Some [[JNum 100, JStr ''y'']],
                      handles := [(JNum 20, JBool True)], startTime := JNum 1001\<rparr>"
      and rf = "new_TestRunner\<lparr>countTests := 1, unhandledRejection := [1], uncaughtException := [1]\<rparr>"
      and k = 1]
  by (simp add: body_run_def new_TestRunner_def initial_locals_def process_on_def
        step_def Let_def js_sub_def js_add_def js_abs_def js_gt_def
        tollerance_of_def propagate_of_def options_default_def get_prop_def js_or_def
        count_check_def new_Error_def)

text \<open>
  C6 as stated fails where the assertion count is wrong as well: the body declares one
  assertion, makes none, and leaves the step \<open>[0, 'x']\<close> unconsumed; the outcome is
  \<open>wrong number\<close>, not \<open>missed steps\<close>. It also fails for a declared step that a later
  \<open>schedule\<close> call replaced: after \<open>schedule([[0, 'x']])\<close> and \<open>schedule([])\<close> the step was
  never consumed and the outcome is \<open>null\<close>.
\<close>

theorem count_mismatch_hides_missed_steps:
  "result_error (fst (runTest (=)
      (Some (Body [Call (Expect (JNum 1)), Call (Schedule [[JNum 0, JStr ''x'']] None)]
               (Return JUndefined)))
      new_TestRunner))
    = JErr [(''message'', JStr ''wrong number''), (''expected'', JNum 1), (''actual'', JNum 0)]
   \<and> result_error (fst (runTest (=)
      (Some (Body [Call (Expect (JNum 1)), Call (Schedule [[JNum 0, JStr ''x'']] None)]
               (Return JUndefined)))
      new_TestRunner))
    \<noteq> JErr [(''message'', JStr ''missed steps''), (''steps'', JArr [JArr [JNum 0, JStr ''x'']])]
   \<and> result_error (fst (runTest (=)
      (Some (Body [Call (Schedule [[JNum 0, JStr ''x'']] None), Call (Schedule [] None)]
               (Return JUndefined)))
      new_TestRunner))
    = JNull"
  by (simp add: runTest_def Let_def new_TestRunner_def initial_locals_def process_on_def
        process_off_def removeListener_def post_checks_def count_check_def missed_check_def
        new_Error_def js_coalesce_def)

subsection \<open>Counting assertions\<close>

lemma ctx_call_count:
  "ctx_call isEqual a l stk = (t, l', stk') \<Longrightarrow>
     countActual l' = (if is_expect a then 0 else countActual l + (if counts a then 1 else 0))"
  by (cases "(isEqual, a, l, stk)" rule: ctx_call.cases)
     (auto simp: step_def Let_def counted_def did_throw_def didnt_throw_def
           split: if_splits cb_result.splits prod.splits option.splits list.splits)

lemma ctx_call_expected:
  "ctx_call isEqual a l stk = (t, l', stk') \<Longrightarrow> \<not> is_expect a \<Longrightarrow>
     countExpected l' = countExpected l"
  by (cases "(isEqual, a, l, stk)" rule: ctx_call.cases)
     (auto simp: step_def Let_def counted_def did_throw_def didnt_throw_def
           split: if_splits cb_result.splits prod.splits option.splits list.splits)

lemma run_events_count:
  "run_events isEqual h es l r = (None, l', r') \<Longrightarrow> calls is_expect es = 0 \<Longrightarrow>
     countActual l' = countActual l + int (calls counts es) \<and> countExpected l' = countExpected l"
proof (induction isEqual h es l r arbitrary: l' r' rule: run_events.induct)
  case (1 isEqual h l r)
  then show ?case by simp
next
  case (2 isEqual h a es l r)
  obtain t1 l1 stk1 where c: "ctx_call isEqual a l (stack r) = (t1, l1, stk1)"
    by (cases "ctx_call isEqual a l (stack r)") auto
  from "2.prems"(2) have ne: "\<not> is_expect a" "calls is_expect es = 0"
    by (auto split: if_splits)
  from "2.prems"(1) c have n: "t1 = None" by (cases t1) auto
  with "2.prems"(1) c have run:
    "run_events isEqual h es l1 (r\<lparr>stack := stk1\<rparr>) = (None, l', r')" by simp
  have "countActual l' = countActual l1 + int (calls counts es) \<and>
        countExpected l' = countExpected l1"
    using "2.IH"[of t1 "(l1, stk1)" l1 stk1 l' r'] c n run ne(2) by simp
  with ctx_call_count[OF c] ctx_call_expected[OF c ne(1)] ne(1) show ?case by simp
next
  case (3 isEqual h a es l r)
  obtain t1 l1 stk1 where c: "ctx_call isEqual a l (stack r) = (t1, l1, stk1)"
    by (cases "ctx_call isEqual a l (stack r)") auto
  from "3.prems"(2) have ne: "\<not> is_expect a" "calls is_expect es = 0"
    by (auto split: if_splits)
  from "3.prems"(1) c have run:
    "run_events isEqual h es l1 (r\<lparr>stack := stk1\<rparr>) = (None, l', r')" by simp
  have "countActual l' = countActual l1 + int (calls counts es) \<and>
        countExpected l' = countExpected l1"
    using "3.IH"[of t1 "(l1, stk1)" l1 stk1 l' r'] c run ne(2) by simp
  with ctx_call_count[OF c] ctx_call_expected[OF c ne(1)] ne(1) show ?case by simp
next
  case (4 isEqual h ev err es l r)
  let ?l = "if h \<in> set (listeners ev r) then handleError err l else l"
  have k: "countActual ?l = countActual l" "countExpected ?l = countExpected l"
    by (simp_all add: handleError_def)
  from "4.prems" have "run_events isEqual h es ?l r = (None, l', r')" "calls is_expect es = 0"
    by simp_all
  from "4.IH"[OF this] k show ?case by simp
qed

text \<open>
  C7 (as the code has it). \<open>expect(v)\<close> stores \<open>v\<close> and resets \<open>countActual\<close> to 0. Take a
  body that calls \<open>expect(n)\<close>, then makes the calls \<open>es\<close> (no further \<open>expect\<close>), lets no
  exception escape and completes (it returns, or the awaited race resolves). At the
  count check \<open>countActual\<close> is the number of counted assertion calls in \<open>es\<close>, whether they
  passed or failed inside a \<open>try\<close>: the check raises nothing when that number is \<open>n\<close> and
  raises \<open>wrong number\<close> with \<open>expected = n\<close> and \<open>actual\<close> the number otherwise, so for
  \<open>n - 1\<close> and \<open>n + 1\<close>. When the capture hook has recorded nothing, that error is the
  outcome of the test.
\<close>

theorem expect_counts_assertions:
  assumes "events_of b = pre @ Call (Expect (JNum n)) # es"
    and "expects es = 0"
    and "body_run isEqual b r = (None, lf, rf)"
    and "thrown_by b = None"
  shows "ctx_call isEqual (Expect v) l stk = (None, l\<lparr>countExpected := v, countActual := 0\<rparr>, stk)
    \<and> countExpected lf = JNum n
    \<and> countActual lf = int (assertions es)
    \<and> count_check lf =
        (if int (assertions es) = n then None
         else Some (JErr [(''message'', JStr ''wrong number''), (''expected'', JNum n),
                          (''actual'', JNum (int (assertions es)))]))
    \<and> (nullish (error lf) \<longrightarrow>
        result_error (fst (runTest isEqual (Some b) r)) =
          (if int (assertions es) = n then
             (case missed_check lf of Some e \<Rightarrow> e | None \<Rightarrow> error lf)
           else JErr [(''message'', JStr ''wrong number''), (''expected'', JNum n),
                      (''actual'', JNum (int (assertions es)))]))"
proof -
  let ?h = "countTests r + 1"
  let ?r2 = "process_on ?h (r\<lparr>countTests := ?h\<rparr>)"
  from assms(1,3) have run:
    "run_events isEqual ?h (pre @ Call (Expect (JNum n)) # es) initial_locals ?r2 = (None, lf, rf)"
    by (simp add: body_run_def)
  obtain tp lp rp where p: "run_events isEqual ?h pre initial_locals ?r2 = (tp, lp, rp)"
    by (cases "run_events isEqual ?h pre initial_locals ?r2") auto
  with run have tp: "tp = None"
    by (cases tp) (auto simp: run_events_append)
  with run p have after:
    "run_events isEqual ?h es (lp\<lparr>countExpected := JNum n, countActual := 0\<rparr>) rp = (None, lf, rf)"
    by (simp add: run_events_append)
  from run_events_count[OF after] assms(2) have
    cnt: "countActual lf = int (assertions es)" and ex: "countExpected lf = JNum n"
    by (simp_all add: assertions_def expects_def)
  have chk: "count_check lf =
        (if int (assertions es) = n then None
         else Some (JErr [(''message'', JStr ''wrong number''), (''expected'', JNum n),
                          (''actual'', JNum (int (assertions es)))]))"
    by (simp add: count_check_def cnt ex new_Error_def)
  have out: "result_error (fst (runTest isEqual (Some b) r)) =
          (if int (assertions es) = n then
             (case missed_check lf of Some e \<Rightarrow> e | None \<Rightarrow> error lf)
           else JErr [(''message'', JStr ''wrong number''), (''expected'', JNum n),
                      (''actual'', JNum (int (assertions es)))])"
    if "nullish (error lf)"
    using that assms(4)
    by (simp add: runTest_flat[OF assms(3)] post_checks_def chk js_coalesce_def
          split: option.splits)
  have reset: "ctx_call isEqual (Expect v) l stk =
      (None, l\<lparr>countExpected := v, countActual := 0\<rparr>, stk)"
    by simp
  from reset ex cnt chk out show ?thesis by blast
qed

theorem expect_counts_assertions_witness:
  "result_error (fst (runTest (=) (Some (Body [Call (Expect (JNum 2)), Call (Ok (JBool True) JUndefined JUndefined), Call (Ok (JBool True) JUndefined JUndefined)] (Return JUndefined))) new_TestRunner)) = JNull
   \<and> result_error (fst (runTest (=) (Some (Body [Call (Expect (JNum 2)), Call (Ok (JBool True) JUndefined JUndefined)] (Return JUndefined))) new_TestRunner))
     = JErr [(''message'', JStr ''wrong number''), (''expected'', JNum 2), (''actual'', JNum 1)]
   \<and> result_error (fst (runTest (=) (Some (Body [Call (Expect (JNum 2)), Call (Ok (JBool True) JUndefined JUndefined), Call (Ok (JBool True) JUndefined JUndefined), Call (Ok (JBool True) JUndefined JUndefined)] (Return JUndefined))) new_TestRunner))
     = JErr [(''message'', JStr ''wrong number''), (''expected'', JNum 2), (''actual'', JNum 3)]"
  using expect_counts_assertions[where b = "Body [Call (Expect (JNum 2)), Call (Ok (JBool True) JUndefined JUndefined), Call (Ok (JBool True) JUndefined JUndefined)] (Return JUndefined)" and pre = "[]" and n = 2 and es = "[Call (Ok (JBool True) JUndefined JUndefined), Call (Ok (JBool True) JUndefined JUndefined)]"
      and isEqual = "(=)" and r = new_TestRunner
      and lf = "initial_locals\<lparr>countExpected := JNum 2, countActual := 2\<rparr>"
      and rf = "new_TestRunner\<lparr>countTests := 1, unhandledRejection := [1], uncaughtException := [1]\<rparr>"]
    expect_counts_assertions[where b = "Body [Call (Expect (JNum 2)), Call (Ok (JBool True) JUndefined JUndefined)] (Return JUndefined)" and pre = "[]" and n = 2 and es = "[Call (Ok (JBool True) JUndefined JUndefined)]"
      and isEqual = "(=)" and r = new_TestRunner
      and lf = "initial_locals\<lparr>countExpected := JNum 2, countActual := 1\<rparr>"
      and rf = "new_TestRunner\<lparr>countTests := 1, unhandledRejection := [1], uncaughtException := [1]\<rparr>"]
    expect_counts_assertions[where b = "Body [Call (Expect (JNum 2)), Call (Ok (JBool True) JUndefined JUndefined), Call (Ok (JBool True) JUndefined JUndefined), Call (Ok (JBool True) JUndefined JUndefined)] (Return JUndefined)" and pre = "[]" and n = 2 and es = "[Call (Ok (JBool True) JUndefined JUndefined), Call (Ok (JBool True) JUndefined JUndefined), Call (Ok (JBool True) JUndefined JUndefined)]"
      and isEqual = "(=)" and r = new_TestRunner
      and lf = "initial_locals\<lparr>countExpected := JNum 2, countActual := 3\<rparr>"
      and rf = "new_TestRunner\<lparr>countTests := 1, unhandledRejection := [1], uncaughtException := [1]\<rparr>"]
  by (simp add: body_run_def new_TestRunner_def initial_locals_def process_on_def
        counted_def expects_def assertions_def missed_check_def)

text \<open>
  C7 as stated fails for a body that settles with an exception: the count is checked only
  when nothing was thrown. A body that declares three assertions and is ended by its
  second, failing one made \<open>n - 1\<close> counted calls and reports \<open>not ok\<close>; a body that declares
  one assertion and times out made \<open>n - 1\<close> and reports the timeout. Neither reports
  \<open>wrong number\<close>.
\<close>

theorem no_count_check_after_exception:
  "result_error (fst (runTest (=)
      (Some (Body [Call (Expect (JNum 3)), Call (Ok (JBool True) JUndefined JUndefined),
                   Call (Ok (JBool False) JUndefined JUndefined)] (Return JUndefined)))
      new_TestRunner))
    = JErr [(''message'', JStr ''not ok'')]
   \<and> result_error (fst (runTest (=)
      (Some (Body [Call (Expect (JNum 1))] (Promise [] (TimesOut (JStr ''timeout'')))))
      new_TestRunner))
    = JStr ''timeout''"
  by (simp add: runTest_def Let_def new_TestRunner_def initial_locals_def process_on_def
        process_off_def removeListener_def counted_def new_Error_def assign_info_def
        js_coalesce_def)

subsection \<open>A falsy exception\<close>

text \<open>
  C9 (as the code has it). When the body ends the \<open>try\<close> block with a falsy value \<open>v\<close>
  (it throws \<open>v\<close>, or the awaited race rejects with \<open>v\<close>), no exception escaped from a
  context call before, and the capture hook has recorded nothing, the outcome's error is
  \<open>v\<close>. The loop tests \<open>if (error)\<close>: it prints the name alone, leaves \<open>countFailed\<close> as it
  was and goes on with the rest of the stack, so the test counts as passed.
\<close>

theorem falsy_exception_counts_as_passed:
  assumes "stack r = TestItem name (Some b) # rest"
    and "body_run isEqual b (r\<lparr>stack := rest\<rparr>) = (None, lf, rf)"
    and "thrown_by b = Some v"
    and "\<not> truthy v"
    and "nullish (error lf)"
  shows "result_error (fst (runTest isEqual (Some b) (r\<lparr>stack := rest\<rparr>))) = v
    \<and> runTests_loop isEqual r =
        runTests_loop isEqual
          (r\<lparr>countTests := countTests r + 1, stack := stack rf,
             console := console r @ [ConsoleLogTest name None]\<rparr>)
    \<and> countFailed (r\<lparr>countTests := countTests r + 1, stack := stack rf,
             console := console r @ [ConsoleLogTest name None]\<rparr>) = countFailed r"
proof -
  from assms(3,5) have res:
    "runTest isEqual (Some b) (r\<lparr>stack := rest\<rparr>) =
       (\<lparr>result_error = v, result_shouldSortKeys = shouldSortKeys lf\<rparr>,
        r\<lparr>countTests := countTests r + 1, stack := stack rf\<rparr>)"
    by (simp add: runTest_flat[OF assms(2)] js_coalesce_def)
  have "runTests_loop isEqual r =
        runTests_loop isEqual
          (r\<lparr>countTests := countTests r + 1, stack := stack rf,
             console := console r @ [ConsoleLogTest name None]\<rparr>)"
    by (rule trans[OF runTests_loop.simps[of isEqual r]]) (simp add: assms(1,4) res)
  with res show ?thesis by simp
qed

theorem falsy_exception_counts_as_passed_witness:
  "runTests_loop (=) (new_TestRunner\<lparr>stack := [TestItem ''zero'' (Some (Body [] (Throw (JNum 0))))]\<rparr>)
    = new_TestRunner\<lparr>countTests := 1, console := [ConsoleLogTest ''zero'' None]\<rparr>
   \<and> result_error (fst (runTest (=) (Some (Body [] (Throw (JNum 0)))) new_TestRunner)) = JNum 0"
  using falsy_exception_counts_as_passed[where r =
        "new_TestRunner\<lparr>stack := [TestItem ''zero'' (Some (Body [] (Throw (JNum 0))))]\<rparr>"
      and name = "''zero''" and b = "Body [] (Throw (JNum 0))" and rest = "[]"
      and isEqual = "(=)" and v = "JNum 0" and lf = initial_locals
      and rf = "new_TestRunner\<lparr>countTests := 1, unhandledRejection := [1], uncaughtException := [1]\<rparr>"]
  by (simp add: body_run_def new_TestRunner_def initial_locals_def process_on_def
        runTests_loop.simps)

text \<open>
  C9 as stated fails when the capture hook recorded an error before the rejection: the
  promise rejects with 0 after an unhandled rejection \<open>background\<close> was delivered; the
  outcome's error is \<open>background\<close>, the line carries it and \<open>countFailed\<close> becomes 1.
\<close>

theorem falsy_rejection_after_hook_error_fails:
  "result_error (fst (runTest (=)
      (Some (Body [] (Promise [Emit UnhandledRejection (JStr ''background'')]
                        (Rejects (JNum 0)))))
      new_TestRunner)) = JStr ''background''
   \<and> runTests_loop (=)
      (new_TestRunner\<lparr>stack :=
         [TestItem ''zero'' (Some (Body [] (Promise [Emit UnhandledRejection (JStr ''background'')]
                                             (Rejects (JNum 0)))))]\<rparr>)
     = new_TestRunner\<lparr>countTests := 1, countFailed := 1,
         console := [ConsoleLogTest ''zero'' (Some (JStr ''background'', JBool False))]\<rparr>"
  by (simp add: runTests_loop.simps runTest_def Let_def new_TestRunner_def initial_locals_def
        process_on_def process_off_def removeListener_def listeners_def handleError_def
        js_coalesce_def)

subsection \<open>The process listeners\<close>

text \<open>
  The runner of the class \<open>TestRunner\<close> installs \<open>handleError\<close> before the \<open>try\<close> block and
  removes it in \<open>finally\<close>: whatever the body does, and also for an absent body, the two
  listener lists are after \<open>runTest\<close> what they were before it.
\<close>

lemma runTest_removes_listeners:
  "unhandledRejection (snd (runTest isEqual callback r)) = unhandledRejection r
   \<and> uncaughtException (snd (runTest isEqual callback r)) = uncaughtException r"
proof (cases callback)
  case None
  then show ?thesis
    by (simp add: runTest_def Let_def process_off_on)
next
  case (Some b)
  obtain t lf rf where "body_run isEqual b r = (t, lf, rf)"
    by (cases "body_run isEqual b r") auto
  from runTest_flat[OF this] Some show ?thesis by simp
qed

text \<open>
  C4. Every execution of a single test removes the error-capture listeners it installed
  before it returns its outcome. The runner of \<open>src/index.js\<close> does not: it installs them
  before the \<open>await\<close> and removes them after it, inside the \<open>try\<close> block, so when the awaited
  race rejects (the body's promise rejects, or the timeout wins) the two \<open>process.off\<close>
  calls are skipped. After a test whose promise rejects with \<open>boom\<close>, and after one that
  times out, the listener of that test (number 1) is still on both events; the runner of
  the class \<open>TestRunner\<close> leaves none on the same two tests.
\<close>

theorem legacy_runTest_leaves_listeners:
  "legacy_runTest (=) (Some (Body [] (Promise [] (Rejects (JStr ''boom''))))) new_TestRunner
    = (JStr ''boom'',
       new_TestRunner\<lparr>countTests := 1, unhandledRejection := [1], uncaughtException := [1]\<rparr>)
   \<and> legacy_runTest (=) (Some (Body [] (Promise [] (TimesOut (JStr ''timeout''))))) new_TestRunner
    = (JStr ''timeout'',
       new_TestRunner\<lparr>countTests := 1, unhandledRejection := [1], uncaughtException := [1]\<rparr>)
   \<and> snd (runTest (=) (Some (Body [] (Promise [] (Rejects (JStr ''boom''))))) new_TestRunner)
    = new_TestRunner\<lparr>countTests := 1\<rparr>
   \<and> snd (runTest (=) (Some (Body [] (Promise [] (TimesOut (JStr ''timeout''))))) new_TestRunner)
    = new_TestRunner\<lparr>countTests := 1\<rparr>"
  by (simp add: legacy_runTest_def runTest_def Let_def new_TestRunner_def initial_locals_def
        process_on_def process_off_def removeListener_def js_or_def)

subsection \<open>The order of execution\<close>

lemma ctx_call_no_test:
  "ctx_call isEqual a l stk = (t, l', stk') \<Longrightarrow> \<not> is_test a \<Longrightarrow> stk' = stk"
  by (cases "(isEqual, a, l, stk)" rule: ctx_call.cases)
     (auto simp: did_throw_def didnt_throw_def
           split: if_splits cb_result.splits prod.splits)

lemma run_events_no_test:
  "run_events isEqual h es l r = (t, l', r') \<Longrightarrow> calls is_test es = 0 \<Longrightarrow> stack r' = stack r"
proof (induction isEqual h es l r arbitrary: t l' r' rule: run_events.induct)
  case (1 isEqual h l r)
  then show ?case by simp
next
  case (2 isEqual h a es l r)
  obtain t1 l1 stk1 where c: "ctx_call isEqual a l (stack r) = (t1, l1, stk1)"
    by (cases "ctx_call isEqual a l (stack r)") auto
  from "2.prems"(2) have ne: "\<not> is_test a" "calls is_test es = 0"
    by (auto split: if_splits)
  from ctx_call_no_test[OF c ne(1)] have s: "stk1 = stack r" .
  show ?case
  proof (cases t1)
    case (Some x)
    with "2.prems"(1) c s show ?thesis by auto
  next
    case None
    with "2.prems"(1) c have run:
      "run_events isEqual h es l1 (r\<lparr>stack := stk1\<rparr>) = (t, l', r')" by simp
    have "stack r' = stack (r\<lparr>stack := stk1\<rparr>)"
      using "2.IH"[of t1 "(l1, stk1)" l1 stk1 t l' r'] c None run ne(2) by simp
    with s show ?thesis by simp
  qed
next
  case (3 isEqual h a es l r)
  obtain t1 l1 stk1 where c: "ctx_call isEqual a l (stack r) = (t1, l1, stk1)"
    by (cases "ctx_call isEqual a l (stack r)") auto
  from "3.prems"(2) have ne: "\<not> is_test a" "calls is_test es = 0"
    by (auto split: if_splits)
  from ctx_call_no_test[OF c ne(1)] have s: "stk1 = stack r" .
  from "3.prems"(1) c have run:
    "run_events isEqual h es l1 (r\<lparr>stack := stk1\<rparr>) = (t, l', r')" by simp
  have "stack r' = stack (r\<lparr>stack := stk1\<rparr>)"
    using "3.IH"[of t1 "(l1, stk1)" l1 stk1 t l' r'] c run ne(2) by simp
  with s show ?case by simp
next
  case (4 isEqual h ev err es l r)
  from "4.prems" have
    "run_events isEqual h es (if h \<in> set (listeners ev r) then handleError err l else l) r
       = (t, l', r')" "calls is_test es = 0"
    by simp_all
  from "4.IH"[OF this] show ?case .
qed

lemma runTest_console: "console (snd (runTest isEqual callback r)) = console r"
proof (cases callback)
  case None
  then show ?thesis by (simp add: runTest_def Let_def process_off_on)
next
  case (Some b)
  obtain t lf rf where "body_run isEqual b r = (t, lf, rf)"
    by (cases "body_run isEqual b r") auto
  from runTest_flat[OF this] Some show ?thesis by simp
qed

lemma runTests_loop_test:
  assumes "stack r = TestItem name callback # rest"
  shows "\<exists>r1 outcome. runTests_loop isEqual r = runTests_loop isEqual r1 \<and>
           console r1 = console r @ [ConsoleLogTest name outcome] \<and>
           stack r1 = stack (snd (runTest isEqual callback (r\<lparr>stack := rest\<rparr>)))"
proof -
  obtain res r' where rt: "runTest isEqual callback (r\<lparr>stack := rest\<rparr>) = (res, r')"
    by (cases "runTest isEqual callback (r\<lparr>stack := rest\<rparr>)") auto
  from runTest_console[of isEqual callback "r\<lparr>stack := rest\<rparr>"] rt
  have con: "console r' = console r" by simp
  let ?r1 = "if truthy (result_error res) then
               r'\<lparr>console := console r' @
                    [ConsoleLogTest name (Some (result_error res, result_shouldSortKeys res))],
                  countFailed := countFailed r' + 1\<rparr>
             else r'\<lparr>console := console r' @ [ConsoleLogTest name None]\<rparr>"
  have "runTests_loop isEqual r = runTests_loop isEqual ?r1"
    by (rule trans[OF runTests_loop.simps[of isEqual r]]) (simp add: assms rt)
  moreover have "\<exists>outcome. console ?r1 = console r @ [ConsoleLogTest name outcome]"
    using con by simp
  moreover have "stack ?r1 = stack (snd (runTest isEqual callback (r\<lparr>stack := rest\<rparr>)))"
    using rt by simp
  ultimately show ?thesis by blast
qed

lemma runTests_loop_console:
  "\<exists>ys. console (runTests_loop isEqual r) = console r @ ys"
proof (induction isEqual r rule: runTests_loop.induct)
  case (1 isEqual r)
  show ?case
  proof (cases "stack r")
    case Nil
    then show ?thesis
      by (subst runTests_loop.simps) simp
  next
    case (Cons it rest)
    show ?thesis
    proof (cases it)
      case (Group path)
      from "1.IH"(1)[OF Cons Group] obtain ys where
        "console (runTests_loop isEqual
           (r\<lparr>stack := rest, console := console r @ [ConsoleGroup path]\<rparr>))
         = console r @ [ConsoleGroup path] @ ys" by auto
      then show ?thesis
        by (subst runTests_loop.simps) (simp add: Cons Group)
    next
      case GroupEnd
      from "1.IH"(2)[OF Cons GroupEnd] obtain ys where
        "console (runTests_loop isEqual
           (r\<lparr>stack := rest, console := console r @ [ConsoleGroupEnd, ConsoleLog []]\<rparr>))
         = console r @ [ConsoleGroupEnd, ConsoleLog []] @ ys" by auto
      then show ?thesis
        by (subst runTests_loop.simps) (simp add: Cons GroupEnd)
    next
      case (TestItem name callback)
      obtain res r' where rt: "runTest isEqual callback (r\<lparr>stack := rest\<rparr>) = (res, r')"
        by (cases "runTest isEqual callback (r\<lparr>stack := rest\<rparr>)") auto
      from runTest_console[of isEqual callback "r\<lparr>stack := rest\<rparr>"] rt
      have con: "console r' = console r" by simp
      let ?r1 = "if truthy (result_error res) then
               r'\<lparr>console := console r' @
                    [ConsoleLogTest name (Some (result_error res, result_shouldSortKeys res))],
                  countFailed := countFailed r' + 1\<rparr>
             else r'\<lparr>console := console r' @ [ConsoleLogTest name None]\<rparr>"
      from "1.IH"(3)[OF Cons TestItem rt[symmetric]] obtain ys where
        ys: "console (runTests_loop isEqual ?r1) = console ?r1 @ ys" by auto
      have "runTests_loop isEqual r = runTests_loop isEqual ?r1"
        by (rule trans[OF runTests_loop.simps[of isEqual r]]) (simp add: Cons TestItem rt)
      with ys con show ?thesis by auto
    qed
  qed
qed

lemma runTests_loop_reaches:
  "stack r = xs @ TestItem name callback # rest \<Longrightarrow>
     \<exists>r0 X. runTests_loop isEqual r = runTests_loop isEqual r0 \<and>
            console r0 = console r @ X \<and> stack r0 = TestItem name callback # rest"
proof (induction isEqual r arbitrary: xs rule: runTests_loop.induct)
  case (1 isEqual r)
  show ?case
  proof (cases xs)
    case Nil
    with "1.prems" have "runTests_loop isEqual r = runTests_loop isEqual r \<and>
        console r = console r @ [] \<and> stack r = TestItem name callback # rest" by simp
    then show ?thesis by blast
  next
    case (Cons it xs')
    with "1.prems" have st: "stack r = it # (xs' @ TestItem name callback # rest)" by simp
    show ?thesis
    proof (cases it)
      case (Group path)
      let ?r1 = "r\<lparr>stack := xs' @ TestItem name callback # rest,
                   console := console r @ [ConsoleGroup path]\<rparr>"
      have "stack ?r1 = xs' @ TestItem name callback # rest" by simp
      from "1.IH"(1)[OF st Group this] obtain r0 X where
        "runTests_loop isEqual ?r1 = runTests_loop isEqual r0"
        "console r0 = console ?r1 @ X" "stack r0 = TestItem name callback # rest" by blast
      moreover have "runTests_loop isEqual r = runTests_loop isEqual ?r1"
        by (rule trans[OF runTests_loop.simps[of isEqual r]]) (simp add: st Group)
      ultimately have "runTests_loop isEqual r = runTests_loop isEqual r0 \<and>
          console r0 = console r @ ([ConsoleGroup path] @ X) \<and>
          stack r0 = TestItem name callback # rest" by simp
      then show ?thesis by blast
    next
      case GroupEnd
      let ?r1 = "r\<lparr>stack := xs' @ TestItem name callback # rest,
                   console := console r @ [ConsoleGroupEnd, ConsoleLog []]\<rparr>"
      have "stack ?r1 = xs' @ TestItem name callback # rest" by simp
      from "1.IH"(2)[OF st GroupEnd this] obtain r0 X where
        "runTests_loop isEqual ?r1 = runTests_loop isEqual r0"
        "console r0 = console ?r1 @ X" "stack r0 = TestItem name callback # rest" by blast
      moreover have "runTests_loop isEqual r = runTests_loop isEqual ?r1"
        by (rule trans[OF runTests_loop.simps[of isEqual r]]) (simp add: st GroupEnd)
      ultimately have "runTests_loop isEqual r = runTests_loop isEqual r0 \<and>
          console r0 = console r @ ([ConsoleGroupEnd, ConsoleLog []] @ X) \<and>
          stack r0 = TestItem name callback # rest" by simp
      then show ?thesis by blast
    next
      case (TestItem m cbm)
      let ?R = "r\<lparr>stack := xs' @ TestItem name callback # rest\<rparr>"
      obtain res r' where rt: "runTest isEqual cbm ?R = (res, r')"
        by (cases "runTest isEqual cbm ?R") auto
      from runTest_console[of isEqual cbm ?R] rt have con: "console r' = console r" by simp
      from runTest_stack[OF rt] obtain pre where
        pre: "stack r' = pre @ xs' @ TestItem name callback # rest" by auto
      let ?r1 = "if truthy (result_error res) then
               r'\<lparr>console := console r' @
                    [ConsoleLogTest m (Some (result_error res, result_shouldSortKeys res))],
                  countFailed := countFailed r' + 1\<rparr>
             else r'\<lparr>console := console r' @ [ConsoleLogTest m None]\<rparr>"
      from pre have "stack ?r1 = (pre @ xs') @ TestItem name callback # rest" by simp
      from "1.IH"(3)[OF st TestItem rt[symmetric] this] obtain r0 X where
        r0: "runTests_loop isEqual ?r1 = runTests_loop isEqual r0"
        "console r0 = console ?r1 @ X" "stack r0 = TestItem name callback # rest" by blast
      have "runTests_loop isEqual r = runTests_loop isEqual ?r1"
        by (rule trans[OF runTests_loop.simps[of isEqual r]]) (simp add: st TestItem rt)
      moreover from con obtain o1 where "console ?r1 = console r @ [ConsoleLogTest m o1]"
        by (cases "truthy (result_error res)") auto
      ultimately have "runTests_loop isEqual r = runTests_loop isEqual r0 \<and>
          console r0 = console r @ ([ConsoleLogTest m o1] @ X) \<and>
          stack r0 = TestItem name callback # rest" using r0 by simp
      then show ?thesis by blast
    qed
  qed
qed

lemma runTests_console:
  "\<exists>zs. console (runTests isEqual r) = console (runTests_loop isEqual r) @ zs"
  by (simp add: runTests_def Let_def)

lemma runTests_loop_then:
  assumes "stack r0 = TestItem n cbN # mid @ TestItem b cbB # rest"
  shows "\<exists>on Y ob Z.
      console (runTests_loop isEqual r0)
        = console r0 @ [ConsoleLogTest n on] @ Y @ [ConsoleLogTest b ob] @ Z"
proof -
  let ?B = "TestItem b cbB"
  from runTests_loop_test[OF assms, of isEqual] obtain rN on where
    rN: "runTests_loop isEqual r0 = runTests_loop isEqual rN"
      "console rN = console r0 @ [ConsoleLogTest n on]"
      "stack rN = stack (snd (runTest isEqual cbN (r0\<lparr>stack := mid @ ?B # rest\<rparr>)))"
    by blast
  obtain resN r'N where rt:
    "runTest isEqual cbN (r0\<lparr>stack := mid @ ?B # rest\<rparr>) = (resN, r'N)"
    by (cases "runTest isEqual cbN (r0\<lparr>stack := mid @ ?B # rest\<rparr>)") auto
  from runTest_stack[OF rt] obtain preN where "stack r'N = preN @ mid @ ?B # rest" by auto
  with rN(3) rt have "stack rN = (preN @ mid) @ ?B # rest" by simp
  from runTests_loop_reaches[OF this, of isEqual] obtain r0' Y where
    r0': "runTests_loop isEqual rN = runTests_loop isEqual r0'"
      "console r0' = console rN @ Y" "stack r0' = ?B # rest" by blast
  from runTests_loop_test[OF r0'(3), of isEqual] obtain rB ob where
    rB: "runTests_loop isEqual r0' = runTests_loop isEqual rB"
      "console rB = console r0' @ [ConsoleLogTest b ob]" by blast
  from runTests_loop_console[of isEqual rB] obtain Z where
    "console (runTests_loop isEqual rB) = console rB @ Z" by blast
  with rN r0' rB have
    "console (runTests_loop isEqual r0)
        = console r0 @ [ConsoleLogTest n on] @ Y @ [ConsoleLogTest b ob] @ Z" by simp
  then show ?thesis by blast
qed

text \<open>
  One drain loop running alone. Test \<open>a\<close> is at the head of the stack and its sibling \<open>b\<close>
  is queued behind it. The body of \<open>a\<close> calls \<open>test(n, cbN)\<close>, and the calls before that one
  let no exception escape (so the call is made). Then after \<open>a\<close> has run the entry \<open>n\<close> is
  in the stack ahead of \<open>b\<close>, and \<open>runTests\<close> prints the line of \<open>a\<close>, then lines \<open>X\<close>, the line
  of \<open>n\<close>, lines \<open>Y\<close>, the line of \<open>b\<close>, and the rest. When \<open>a\<close> makes no other \<open>test\<close> call,
  \<open>n\<close> is the head of the stack with \<open>b\<close> directly behind it and \<open>X\<close> is empty: the line of
  \<open>n\<close> follows the line of \<open>a\<close> at once.
\<close>

lemma single_loop_nested_before_sibling:
  assumes "stack r = TestItem a (Some bA) # TestItem b cbB # rest"
    and "events_of bA = es1 @ Call (Test n cbN) # es2"
    and "body_run isEqual (Body es1 (Return JUndefined)) (r\<lparr>stack := TestItem b cbB # rest\<rparr>)
           = (None, l1, r1)"
  shows "(\<exists>pre2 pre1.
            stack (snd (runTest isEqual (Some bA) (r\<lparr>stack := TestItem b cbB # rest\<rparr>)))
              = pre2 @ TestItem n cbN # pre1 @ TestItem b cbB # rest)
    \<and> (\<exists>oa X on Y ob Z.
            console (runTests isEqual r)
              = console r @ [ConsoleLogTest a oa] @ X @ [ConsoleLogTest n on] @ Y
                  @ [ConsoleLogTest b ob] @ Z)
    \<and> (calls is_test es1 = 0 \<and> calls is_test es2 = 0 \<longrightarrow>
          stack (snd (runTest isEqual (Some bA) (r\<lparr>stack := TestItem b cbB # rest\<rparr>)))
            = TestItem n cbN # TestItem b cbB # rest
          \<and> (\<exists>oa on Y ob Z.
                console (runTests isEqual r)
                  = console r @ [ConsoleLogTest a oa, ConsoleLogTest n on] @ Y
                      @ [ConsoleLogTest b ob] @ Z))"
proof -
  let ?B = "TestItem b cbB"
  let ?N = "TestItem n cbN"
  let ?R = "r\<lparr>stack := ?B # rest\<rparr>"
  let ?h = "countTests r + 1"
  let ?r2 = "process_on ?h (?R\<lparr>countTests := ?h\<rparr>)"
  let ?after = "stack (snd (runTest isEqual (Some bA) ?R))"
  from assms(3) have run1: "run_events isEqual ?h es1 initial_locals ?r2 = (None, l1, r1)"
    by (simp add: body_run_def)
  from run_events_stack[OF run1] obtain pre1 where
    pre1: "stack r1 = pre1 @ ?B # rest" by (auto simp: process_on_def)
  obtain t lf rf where run2:
    "run_events isEqual ?h es2 l1 (r1\<lparr>stack := ?N # stack r1\<rparr>) = (t, lf, rf)"
    by (cases "run_events isEqual ?h es2 l1 (r1\<lparr>stack := ?N # stack r1\<rparr>)") auto
  from run_events_stack[OF run2] obtain pre2 where
    pre2: "stack rf = pre2 @ ?N # stack r1" by auto
  from assms(2) run1 run2 have whole: "body_run isEqual bA ?R = (t, lf, rf)"
    by (simp add: body_run_def run_events_append)
  from runTest_flat[OF whole] have after: "?after = stack rf" by simp
  with pre1 pre2 have queue: "?after = pre2 @ ?N # pre1 @ ?B # rest" by simp
  from runTests_loop_test[OF assms(1), of isEqual] obtain rA oa where
    rA: "runTests_loop isEqual r = runTests_loop isEqual rA"
      "console rA = console r @ [ConsoleLogTest a oa]" "stack rA = ?after" by blast
  from runTests_console[of isEqual r] obtain zs where
    zs: "console (runTests isEqual r) = console (runTests_loop isEqual r) @ zs" by blast
  have general: "\<exists>oa X on Y ob Z.
      console (runTests isEqual r)
        = console r @ [ConsoleLogTest a oa] @ X @ [ConsoleLogTest n on] @ Y
            @ [ConsoleLogTest b ob] @ Z"
  proof -
    from rA(3) queue have "stack rA = pre2 @ ?N # (pre1 @ ?B # rest)" by simp
    from runTests_loop_reaches[OF this, of isEqual] obtain r0 X where
      r0: "runTests_loop isEqual rA = runTests_loop isEqual r0"
        "console r0 = console rA @ X" "stack r0 = ?N # pre1 @ ?B # rest" by blast
    from runTests_loop_then[OF r0(3), of isEqual] obtain on Y ob Z where
      "console (runTests_loop isEqual r0)
        = console r0 @ [ConsoleLogTest n on] @ Y @ [ConsoleLogTest b ob] @ Z" by blast
    with rA r0 zs have
      "console (runTests isEqual r)
        = console r @ [ConsoleLogTest a oa] @ X @ [ConsoleLogTest n on] @ Y
            @ [ConsoleLogTest b ob] @ (Z @ zs)" by simp
    then show ?thesis by blast
  qed
  have only: "?after = ?N # ?B # rest
      \<and> (\<exists>oa on Y ob Z.
            console (runTests isEqual r)
              = console r @ [ConsoleLogTest a oa, ConsoleLogTest n on] @ Y
                  @ [ConsoleLogTest b ob] @ Z)"
    if none: "calls is_test es1 = 0" "calls is_test es2 = 0"
  proof -
    from run_events_no_test[OF run1 none(1)] have s1: "stack r1 = ?B # rest"
      by (simp add: process_on_def)
    from run_events_no_test[OF run2 none(2)] s1 have "stack rf = ?N # ?B # rest" by simp
    with after have q: "?after = ?N # ?B # rest" by simp
    with rA(3) have "stack rA = ?N # [] @ ?B # rest" by simp
    from runTests_loop_then[OF this, of isEqual] obtain on Y ob Z where
      "console (runTests_loop isEqual rA)
        = console rA @ [ConsoleLogTest n on] @ Y @ [ConsoleLogTest b ob] @ Z" by blast
    with rA zs have
      "console (runTests isEqual r)
        = console r @ [ConsoleLogTest a oa, ConsoleLogTest n on] @ Y
            @ [ConsoleLogTest b ob] @ (Z @ zs)" by simp
    with q show ?thesis by blast
  qed
  from queue have "\<exists>pre2 pre1. ?after = pre2 @ ?N # pre1 @ ?B # rest" by blast
  with general only show ?thesis by blast
qed

text \<open>
  C3. With test \<open>A\<close> at the head of the stack and its sibling \<open>B\<close> behind it, a test that
  \<open>A\<close> registers runs after \<open>A\<close> and before \<open>B\<close>. The runner breaks this when \<open>finish\<close> starts
  a second drain loop while the first is inside \<open>A\<close>. A file registers \<open>A\<close>, whose body
  awaits and then calls \<open>test('N', ...)\<close>, and \<open>B\<close>, whose body awaits. The loop queued by
  \<open>appendTest\<close> starts \<open>A\<close> and waits; \<open>finish\<close> starts the second loop, which takes \<open>B\<close> from
  the head of the stack and waits; \<open>A\<close> registers \<open>N\<close> and completes; the first loop prints
  \<open>A\<close>, runs and prints \<open>N\<close>, finds the stack empty, prints the summary and exits. The tests
  were started in the order \<open>A\<close>, \<open>B\<close>, \<open>N\<close>, and the line of \<open>B\<close> is never printed.
\<close>

theorem second_loop_runs_sibling_before_nested:
  "started (run_ops (=)
      [AppendFile ''f''
         [(''A'', Some (Body [] (Promise [Call (Test ''N'' (Some (Body [] (Return JUndefined))))]
                                  Resolves))),
          (''B'', Some (Body [] (Promise [] Resolves)))],
       Tick, Finish, Resume 0, Resume 0, Resume 0, Resume 0, Resume 1] new_process)
    = [''A'', ''B'', ''N'']
   \<and> console (shared (run_ops (=)
      [AppendFile ''f''
         [(''A'', Some (Body [] (Promise [Call (Test ''N'' (Some (Body [] (Return JUndefined))))]
                                  Resolves))),
          (''B'', Some (Body [] (Promise [] Resolves)))],
       Tick, Finish, Resume 0, Resume 0, Resume 0, Resume 0, Resume 1] new_process))
    = [ConsoleGroup ''f'', ConsoleLogTest ''A'' None, ConsoleLogTest ''N'' None,
       ConsoleGroupEnd, ConsoleLog [],
       ConsoleLog [''files: 1''], ConsoleLog [''tests: 3''], ConsoleLog [''failed: 0'']]
   \<and> exitCode (shared (run_ops (=)
      [AppendFile ''f''
         [(''A'', Some (Body [] (Promise [Call (Test ''N'' (Some (Body [] (Return JUndefined))))]
                                  Resolves))),
          (''B'', Some (Body [] (Promise [] Resolves)))],
       Tick, Finish, Resume 0, Resume 0, Resume 0, Resume 0, Resume 1] new_process))
    = Some 0"
  apply (simp add: exec_op_def appendFile_def appendTest_def new_process_def new_TestRunner_def
        Let_def runTests_start_def finish_def loop_head_def start_test_def settle_test_def
        catch_finally_def resume_def initial_locals_def process_on_def process_off_def
        removeListener_def post_checks_def count_check_def missed_check_def js_coalesce_def)
  apply code_simp
  done

subsection \<open>One drain loop taking all the turns\<close>

text \<open>
  When only one call of \<open>runTests\<close> takes turns, the machine computes what \<open>runTest\<close> and
  \<open>runTests\<close> of the section on draining the queue compute: a test started by \<open>start_test\<close>
  and resumed often enough has returned the result and left the shared state of \<open>runTest\<close>
  (\<open>start_test_runTest\<close>), and a loop entered at \<open>loop_head\<close> and resumed often enough has
  finished and left the shared state of \<open>runTests\<close> (\<open>loop_head_runTests\<close>), whatever
  the other loops of the world are, as long as they take no turn. So the sequential
  functions describe a drain during which no other call of \<open>runTests\<close> takes a turn, and
  \<open>finish\<close> called when no test is at its \<open>await\<close> is \<open>runTests\<close> with \<open>filesDone\<close> set
  (\<open>finish_alone\<close>).
\<close>

lemma sync_events_run_events:
  "run_events isEqual h es l r = (t, l', r') \<Longrightarrow>
     \<exists>ls'. sync_events isEqual h es l r ls = (t, l', r', ls') \<and> length ls' = length ls"
proof (induction isEqual h es l r arbitrary: t l' r' ls rule: run_events.induct)
  case (1 isEqual h l r)
  then show ?case by simp
next
  case (2 isEqual h a es l r)
  obtain t1 l1 stk1 where c: "ctx_call isEqual a l (stack r) = (t1, l1, stk1)"
    by (cases "ctx_call isEqual a l (stack r)") auto
  show ?case
  proof (cases t1)
    case (Some e)
    with "2.prems" c show ?thesis by auto
  next
    case None
    with "2.prems" c have run:
      "run_events isEqual h es l1 (r\<lparr>stack := stk1\<rparr>) = (t, l', r')" by simp
    have "\<exists>ls'. sync_events isEqual h es l1 (r\<lparr>stack := stk1\<rparr>) ls = (t, l', r', ls') \<and>
            length ls' = length ls"
      using "2.IH"[of t1 "(l1, stk1)" l1 stk1 t l' r' ls] c None run by simp
    with c None show ?thesis by simp
  qed
next
  case (3 isEqual h a es l r)
  obtain t1 l1 stk1 where c: "ctx_call isEqual a l (stack r) = (t1, l1, stk1)"
    by (cases "ctx_call isEqual a l (stack r)") auto
  from "3.prems" c have run:
    "run_events isEqual h es l1 (r\<lparr>stack := stk1\<rparr>) = (t, l', r')" by simp
  have "\<exists>ls'. sync_events isEqual h es l1 (r\<lparr>stack := stk1\<rparr>) ls = (t, l', r', ls') \<and>
          length ls' = length ls"
    using "3.IH"[of t1 "(l1, stk1)" l1 stk1 t l' r' ls] c run by simp
  with c show ?case by simp
next
  case (4 isEqual h ev err es l r)
  let ?l = "if h \<in> set (listeners ev r) then handleError err l else l"
  from "4.prems" have "run_events isEqual h es ?l r = (t, l', r')" by simp
  from "4.IH"[OF this, of "map (deliver ev err r) ls"] show ?case by simp
qed

lemma resume_call_throws:
  assumes "k < length (loops w)" "loops w ! k = Awaiting name h l (Call a # es) s"
    and "ctx_call isEqual a l (stack (shared w)) = (Some x, l1, stk1)"
  shows "resume isEqual k w =
     w\<lparr>shared := snd (catch_finally h (Some x) l1 ((shared w)\<lparr>stack := stk1\<rparr>)),
       loops := (loops w)[k := Returned name
                  (fst (catch_finally h (Some x) l1 ((shared w)\<lparr>stack := stk1\<rparr>)))]\<rparr>"
  using assms by (simp add: resume_def settle_test_def split: prod.splits)

lemma resume_call_returns:
  assumes "k < length (loops w)" "loops w ! k = Awaiting name h l (Call a # es) s"
    and "ctx_call isEqual a l (stack (shared w)) = (None, l1, stk1)"
  shows "resume isEqual k w =
     w\<lparr>shared := (shared w)\<lparr>stack := stk1\<rparr>,
       loops := (loops w)[k := Awaiting name h l1 es s]\<rparr>"
  using assms by (simp add: resume_def)

lemma resume_try:
  assumes "k < length (loops w)" "loops w ! k = Awaiting name h l (Try a # es) s"
    and "ctx_call isEqual a l (stack (shared w)) = (t1, l1, stk1)"
  shows "resume isEqual k w =
     w\<lparr>shared := (shared w)\<lparr>stack := stk1\<rparr>,
       loops := (loops w)[k := Awaiting name h l1 es s]\<rparr>"
  using assms by (simp add: resume_def)

lemma resume_emit:
  assumes "k < length (loops w)" "loops w ! k = Awaiting name h l (Emit ev err # es) s"
  shows "resume isEqual k w =
     w\<lparr>loops := map (deliver ev err (shared w)) ((loops w)[k := Awaiting name h l es s])\<rparr>"
  using assms by (simp add: resume_def)

lemma resume_events:
  "k < length (loops w) \<Longrightarrow> loops w ! k = Awaiting name h l es s \<Longrightarrow>
     \<exists>n. length (loops ((resume isEqual k ^^ n) w)) = length (loops w) \<and>
       started ((resume isEqual k ^^ n) w) = started w \<and>
       loops ((resume isEqual k ^^ n) w) ! k
         = fst (event_result name h s (run_events isEqual h es l (shared w))) \<and>
       shared ((resume isEqual k ^^ n) w)
         = snd (event_result name h s (run_events isEqual h es l (shared w)))"
proof (induction es arbitrary: l w)
  case Nil
  then have "length (loops ((resume isEqual k ^^ 0) w)) = length (loops w) \<and>
       started ((resume isEqual k ^^ 0) w) = started w \<and>
       loops ((resume isEqual k ^^ 0) w) ! k
         = fst (event_result name h s (run_events isEqual h [] l (shared w))) \<and>
       shared ((resume isEqual k ^^ 0) w)
         = snd (event_result name h s (run_events isEqual h [] l (shared w)))"
    by (simp add: event_result_def)
  then show ?case by blast
next
  case (Cons e es)
  have step: "\<exists>n. length (loops ((resume isEqual k ^^ n) w)) = length (loops w) \<and>
       started ((resume isEqual k ^^ n) w) = started w \<and>
       loops ((resume isEqual k ^^ n) w) ! k = fst (event_result name h s res) \<and>
       shared ((resume isEqual k ^^ n) w) = snd (event_result name h s res)"
    if w1: "resume isEqual k w = w1" "length (loops w1) = length (loops w)"
      "started w1 = started w" "loops w1 ! k = Awaiting name h l1 es s"
      and res: "res = run_events isEqual h es l1 (shared w1)" for w1 l1 res
  proof -
    from w1(2) Cons.prems(1) have "k < length (loops w1)" by simp
    from Cons.IH[OF this w1(4)] obtain n where
      "length (loops ((resume isEqual k ^^ n) w1)) = length (loops w1)"
      "started ((resume isEqual k ^^ n) w1) = started w1"
      "loops ((resume isEqual k ^^ n) w1) ! k
         = fst (event_result name h s (run_events isEqual h es l1 (shared w1)))"
      "shared ((resume isEqual k ^^ n) w1)
         = snd (event_result name h s (run_events isEqual h es l1 (shared w1)))" by blast
    with w1 res have "length (loops ((resume isEqual k ^^ Suc n) w)) = length (loops w) \<and>
       started ((resume isEqual k ^^ Suc n) w) = started w \<and>
       loops ((resume isEqual k ^^ Suc n) w) ! k = fst (event_result name h s res) \<and>
       shared ((resume isEqual k ^^ Suc n) w) = snd (event_result name h s res)"
      by (simp add: funpow_swap1)
    then show ?thesis by blast
  qed
  show ?case
  proof (cases e)
    case (Call a)
    obtain t1 l1 stk1 where c: "ctx_call isEqual a l (stack (shared w)) = (t1, l1, stk1)"
      by (cases "ctx_call isEqual a l (stack (shared w))") auto
    show ?thesis
    proof (cases t1)
      case (Some x)
      from Cons.prems Call have aw: "loops w ! k = Awaiting name h l (Call a # es) s" by simp
      from c Some have c': "ctx_call isEqual a l (stack (shared w)) = (Some x, l1, stk1)" by simp
      from resume_call_throws[OF Cons.prems(1) aw c'] Cons.prems(1) c' Call
      have "length (loops ((resume isEqual k ^^ 1) w)) = length (loops w) \<and>
       started ((resume isEqual k ^^ 1) w) = started w \<and>
       loops ((resume isEqual k ^^ 1) w) ! k
         = fst (event_result name h s (run_events isEqual h (e # es) l (shared w))) \<and>
       shared ((resume isEqual k ^^ 1) w)
         = snd (event_result name h s (run_events isEqual h (e # es) l (shared w)))"
        by (simp add: event_result_def)
      then show ?thesis by blast
    next
      case None
      from Cons.prems Call have aw: "loops w ! k = Awaiting name h l (Call a # es) s" by simp
      from c None have c': "ctx_call isEqual a l (stack (shared w)) = (None, l1, stk1)" by simp
      let ?w1 = "w\<lparr>shared := (shared w)\<lparr>stack := stk1\<rparr>,
                    loops := (loops w)[k := Awaiting name h l1 es s]\<rparr>"
      have "\<exists>n. length (loops ((resume isEqual k ^^ n) w)) = length (loops w) \<and>
         started ((resume isEqual k ^^ n) w) = started w \<and>
         loops ((resume isEqual k ^^ n) w) ! k
           = fst (event_result name h s (run_events isEqual h es l1 (shared ?w1))) \<and>
         shared ((resume isEqual k ^^ n) w)
           = snd (event_result name h s (run_events isEqual h es l1 (shared ?w1)))"
        by (rule step[OF resume_call_returns[OF Cons.prems(1) aw c']])
           (simp_all add: Cons.prems(1))
      with Call c' show ?thesis by simp
    qed
  next
    case (Try a)
    obtain t1 l1 stk1 where c: "ctx_call isEqual a l (stack (shared w)) = (t1, l1, stk1)"
      by (cases "ctx_call isEqual a l (stack (shared w))") auto
    from Cons.prems Try have aw: "loops w ! k = Awaiting name h l (Try a # es) s" by simp
    let ?w1 = "w\<lparr>shared := (shared w)\<lparr>stack := stk1\<rparr>,
                  loops := (loops w)[k := Awaiting name h l1 es s]\<rparr>"
    have "\<exists>n. length (loops ((resume isEqual k ^^ n) w)) = length (loops w) \<and>
       started ((resume isEqual k ^^ n) w) = started w \<and>
       loops ((resume isEqual k ^^ n) w) ! k
         = fst (event_result name h s (run_events isEqual h es l1 (shared ?w1))) \<and>
       shared ((resume isEqual k ^^ n) w)
         = snd (event_result name h s (run_events isEqual h es l1 (shared ?w1)))"
      by (rule step[OF resume_try[OF Cons.prems(1) aw c]])
         (simp_all add: Cons.prems(1))
    with Try c show ?thesis by simp
  next
    case (Emit ev err)
    from Cons.prems Emit have aw: "loops w ! k = Awaiting name h l (Emit ev err # es) s" by simp
    let ?l1 = "if h \<in> set (listeners ev (shared w)) then handleError err l else l"
    let ?w1 = "w\<lparr>loops := map (deliver ev err (shared w))
                             ((loops w)[k := Awaiting name h l es s])\<rparr>"
    have "\<exists>n. length (loops ((resume isEqual k ^^ n) w)) = length (loops w) \<and>
       started ((resume isEqual k ^^ n) w) = started w \<and>
       loops ((resume isEqual k ^^ n) w) ! k
         = fst (event_result name h s (run_events isEqual h es ?l1 (shared ?w1))) \<and>
       shared ((resume isEqual k ^^ n) w)
         = snd (event_result name h s (run_events isEqual h es ?l1 (shared ?w1)))"
      by (rule step[OF resume_emit[OF Cons.prems(1) aw]])
         (simp_all add: Cons.prems(1))
    with Emit show ?thesis by simp
  qed
qed

lemma runTest_catch_finally:
  "runTest isEqual callback r =
     (case try_block isEqual (countTests r + 1) callback initial_locals
             (process_on (countTests r + 1) (r\<lparr>countTests := countTests r + 1\<rparr>)) of
        (caught, l, r3) \<Rightarrow> catch_finally (countTests r + 1) caught l r3)"
  by (simp add: runTest_def catch_finally_def Let_def split: prod.splits)

lemma resume_settle:
  assumes "k < length (loops w)" "loops w ! k = Awaiting name h l [] s"
  shows "resume isEqual k w =
     w\<lparr>shared := snd (catch_finally h
                  (case s of Resolves \<Rightarrow> post_checks l | Rejects v \<Rightarrow> Some v | TimesOut v \<Rightarrow> Some v)
                  l (shared w)),
       loops := (loops w)[k := Returned name (fst (catch_finally h
                  (case s of Resolves \<Rightarrow> post_checks l | Rejects v \<Rightarrow> Some v | TimesOut v \<Rightarrow> Some v)
                  l (shared w)))]\<rparr>"
  using assms by (simp add: resume_def settle_test_def split: prod.splits)

lemma settle_test_eq:
  "settle_test k name h caught l w =
     w\<lparr>shared := snd (catch_finally h caught l (shared w)),
       loops := (loops w)[k := Returned name (fst (catch_finally h caught l (shared w)))]\<rparr>"
  by (simp add: settle_test_def split: prod.splits)

lemma start_test_runTest:
  assumes k: "k < length (loops w)"
  shows "\<exists>n. length (loops ((resume isEqual k ^^ n) (start_test isEqual k name callback w)))
                = length (loops w) \<and>
      started ((resume isEqual k ^^ n) (start_test isEqual k name callback w))
        = started w @ [name] \<and>
      loops ((resume isEqual k ^^ n) (start_test isEqual k name callback w)) ! k
        = Returned name (fst (runTest isEqual callback (shared w))) \<and>
      shared ((resume isEqual k ^^ n) (start_test isEqual k name callback w))
        = snd (runTest isEqual callback (shared w))"
    (is "\<exists>n. ?P ((resume isEqual k ^^ n) ?w0)")
proof -
  let ?r = "shared w"
  let ?h = "countTests ?r + 1"
  let ?r2 = "process_on ?h (?r\<lparr>countTests := ?h\<rparr>)"
  let ?w1 = "w\<lparr>started := started w @ [name]\<rparr>"
  have zero: "\<exists>n. ?P ((resume isEqual k ^^ n) ?w0)" if "?P ?w0"
  proof -
    from that have "?P ((resume isEqual k ^^ 0) ?w0)" by simp
    then show ?thesis by blast
  qed
  show ?thesis
  proof (cases callback)
    case None
    have "?P ?w0"
      using k by (simp add: None start_test_def Let_def settle_test_eq runTest_catch_finally)
    then show ?thesis by (rule zero)
  next
    case (Some b)
    obtain es out where b: "b = Body es out" by (cases b) auto
    obtain t l1 r3 where run: "run_events isEqual ?h es initial_locals ?r2 = (t, l1, r3)"
      by (cases "run_events isEqual ?h es initial_locals ?r2") auto
    from sync_events_run_events[OF run, of "loops w"] obtain ls' where
      sync: "sync_events isEqual ?h es initial_locals ?r2 (loops w) = (t, l1, r3, ls')"
      and len: "length ls' = length (loops w)" by blast
    let ?w2 = "?w1\<lparr>shared := r3, loops := ls'\<rparr>"
    show ?thesis
    proof (cases t)
      case (Some e)
      have "?P ?w0"
        using k len run sync Some
        by (simp add: \<open>callback = Some b\<close> b start_test_def Let_def settle_test_eq
              runTest_catch_finally)
      then show ?thesis by (rule zero)
    next
      case None
      show ?thesis
      proof (cases out)
        case (Throw v)
        have "?P ?w0"
          using k len run sync None
          by (simp add: \<open>callback = Some b\<close> b Throw start_test_def Let_def settle_test_eq
                runTest_catch_finally)
        then show ?thesis by (rule zero)
      next
        case (Return v)
        show ?thesis
        proof (cases "truthy v")
          case False
          have "?P ?w0"
            using k len run sync None False
            by (simp add: \<open>callback = Some b\<close> b Return start_test_def Let_def settle_test_eq
                  runTest_catch_finally)
          then show ?thesis by (rule zero)
        next
          case True
          let ?w3 = "?w1\<lparr>shared := r3, loops := ls'[k := Awaiting name ?h l1 [] Resolves]\<rparr>"
          have w0: "?w0 = ?w3"
            using run sync None True
            by (simp add: \<open>callback = Some b\<close> b Return start_test_def Let_def)
          have k3: "k < length (loops ?w3)" "loops ?w3 ! k = Awaiting name ?h l1 [] Resolves"
            using k len by simp_all
          have "?P (resume isEqual k ?w3)"
            unfolding resume_settle[OF k3]
            using k len run None
            by (simp add: \<open>callback = Some b\<close> b Return runTest_catch_finally)
          with w0 have "?P ((resume isEqual k ^^ 1) ?w0)" by simp
          then show ?thesis by blast
        qed
      next
        case (Promise es2 s)
        let ?w3 = "?w1\<lparr>shared := r3, loops := ls'[k := Awaiting name ?h l1 es2 s]\<rparr>"
        have w0: "?w0 = ?w3"
          using run sync None
          by (simp add: \<open>callback = Some b\<close> b Promise start_test_def Let_def)
        have k3: "k < length (loops ?w3)" "loops ?w3 ! k = Awaiting name ?h l1 es2 s"
          using k len by simp_all
        obtain t2 l2 r4 where run2: "run_events isEqual ?h es2 l1 r3 = (t2, l2, r4)"
          by (cases "run_events isEqual ?h es2 l1 r3") auto
        from resume_events[OF k3, of isEqual] obtain n where
          n: "length (loops ((resume isEqual k ^^ n) ?w3)) = length (loops ?w3)"
            "started ((resume isEqual k ^^ n) ?w3) = started ?w3"
            "loops ((resume isEqual k ^^ n) ?w3) ! k
               = fst (event_result name ?h s (run_events isEqual ?h es2 l1 (shared ?w3)))"
            "shared ((resume isEqual k ^^ n) ?w3)
               = snd (event_result name ?h s (run_events isEqual ?h es2 l1 (shared ?w3)))"
          by blast
        show ?thesis
        proof (cases t2)
          case (Some e)
          have "?P ((resume isEqual k ^^ n) ?w3)"
            using n k len run run2 None Some
            by (simp add: event_result_def \<open>callback = Some b\<close> b Promise
                  runTest_catch_finally)
          with w0 show ?thesis by metis
        next
          case t2: None
          let ?w4 = "(resume isEqual k ^^ n) ?w3"
          from n run2 t2 k len have k4: "k < length (loops ?w4)"
            "loops ?w4 ! k = Awaiting name ?h l2 [] s" "shared ?w4 = r4"
            "length (loops ?w4) = length (loops w)" "started ?w4 = started w @ [name]"
            by (simp_all add: event_result_def)
          have "?P (resume isEqual k ?w4)"
            unfolding resume_settle[OF k4(1,2)]
            using k4(3,4,5) k run run2 None t2
            by (cases s)
               (simp_all add: \<open>callback = Some b\<close> b Promise runTest_catch_finally)
          then have "?P ((resume isEqual k ^^ Suc n) ?w3)" by simp
          with w0 show ?thesis by metis
        qed
      qed
    qed
  qed
qed

lemma runTests_loop_no_test:
  "stack r = stk \<Longrightarrow> next_test stk = (outs, rest, None) \<Longrightarrow>
     runTests_loop isEqual r = r\<lparr>stack := rest, console := console r @ outs\<rparr>"
proof (induction stk arbitrary: r outs rule: next_test.induct)
  case 1
  then show ?case by (simp add: runTests_loop.simps[of isEqual r])
next
  case (2 path rest0)
  obtain outs0 where n: "next_test rest0 = (outs0, rest, None)" "outs = ConsoleGroup path # outs0"
    using "2.prems"(2) by (auto split: prod.splits)
  have "runTests_loop isEqual r =
          runTests_loop isEqual (r\<lparr>stack := rest0, console := console r @ [ConsoleGroup path]\<rparr>)"
    using "2.prems"(1) by (simp add: runTests_loop.simps[of isEqual r])
  also have "\<dots> = r\<lparr>stack := rest, console := console r @ outs\<rparr>"
    using "2.IH"[of "r\<lparr>stack := rest0, console := console r @ [ConsoleGroup path]\<rparr>" outs0] n
    by simp
  finally show ?case .
next
  case (3 rest0)
  obtain outs0 where n: "next_test rest0 = (outs0, rest, None)"
    "outs = ConsoleGroupEnd # ConsoleLog [] # outs0"
    using "3.prems"(2) by (auto split: prod.splits)
  have "runTests_loop isEqual r =
          runTests_loop isEqual
            (r\<lparr>stack := rest0, console := console r @ [ConsoleGroupEnd, ConsoleLog []]\<rparr>)"
    using "3.prems"(1) by (simp add: runTests_loop.simps[of isEqual r])
  also have "\<dots> = r\<lparr>stack := rest, console := console r @ outs\<rparr>"
    using "3.IH"[of "r\<lparr>stack := rest0, console := console r @ [ConsoleGroupEnd, ConsoleLog []]\<rparr>"
        outs0] n
    by simp
  finally show ?case .
next
  case (4 name callback rest0)
  then show ?case by simp
qed

lemma runTests_loop_next_test:
  "stack r = stk \<Longrightarrow> next_test stk = (outs, rest, Some (name, callback)) \<Longrightarrow>
     runTests_loop isEqual r =
       (case runTest isEqual callback (r\<lparr>stack := rest, console := console r @ outs\<rparr>) of
          (res, r') \<Rightarrow>
            runTests_loop isEqual
              (if truthy (result_error res) then
                 r'\<lparr>console := console r' @
                      [ConsoleLogTest name (Some (result_error res, result_shouldSortKeys res))],
                    countFailed := countFailed r' + 1\<rparr>
               else r'\<lparr>console := console r' @ [ConsoleLogTest name None]\<rparr>))"
proof (induction stk arbitrary: r outs rule: next_test.induct)
  case 1
  then show ?case by simp
next
  case (2 path rest0)
  obtain outs0 where n: "next_test rest0 = (outs0, rest, Some (name, callback))"
    "outs = ConsoleGroup path # outs0"
    using "2.prems"(2) by (auto split: prod.splits)
  have "runTests_loop isEqual r =
          runTests_loop isEqual (r\<lparr>stack := rest0, console := console r @ [ConsoleGroup path]\<rparr>)"
    using "2.prems"(1) by (simp add: runTests_loop.simps[of isEqual r])
  also have "\<dots> =
       (case runTest isEqual callback (r\<lparr>stack := rest, console := console r @ outs\<rparr>) of
          (res, r') \<Rightarrow>
            runTests_loop isEqual
              (if truthy (result_error res) then
                 r'\<lparr>console := console r' @
                      [ConsoleLogTest name (Some (result_error res, result_shouldSortKeys res))],
                    countFailed := countFailed r' + 1\<rparr>
               else r'\<lparr>console := console r' @ [ConsoleLogTest name None]\<rparr>))"
    using "2.IH"[of "r\<lparr>stack := rest0, console := console r @ [ConsoleGroup path]\<rparr>" outs0] n
    by simp
  finally show ?case .
next
  case (3 rest0)
  obtain outs0 where n: "next_test rest0 = (outs0, rest, Some (name, callback))"
    "outs = ConsoleGroupEnd # ConsoleLog [] # outs0"
    using "3.prems"(2) by (auto split: prod.splits)
  have "runTests_loop isEqual r =
          runTests_loop isEqual
            (r\<lparr>stack := rest0, console := console r @ [ConsoleGroupEnd, ConsoleLog []]\<rparr>)"
    using "3.prems"(1) by (simp add: runTests_loop.simps[of isEqual r])
  also have "\<dots> =
       (case runTest isEqual callback (r\<lparr>stack := rest, console := console r @ outs\<rparr>) of
          (res, r') \<Rightarrow>
            runTests_loop isEqual
              (if truthy (result_error res) then
                 r'\<lparr>console := console r' @
                      [ConsoleLogTest name (Some (result_error res, result_shouldSortKeys res))],
                    countFailed := countFailed r' + 1\<rparr>
               else r'\<lparr>console := console r' @ [ConsoleLogTest name None]\<rparr>))"
    using "3.IH"[of "r\<lparr>stack := rest0, console := console r @ [ConsoleGroupEnd, ConsoleLog []]\<rparr>"
        outs0] n
    by simp
  finally show ?case .
next
  case (4 name0 callback0 rest0)
  then show ?case by (simp add: runTests_loop.simps[of isEqual r])
qed

lemma next_test_weight:
  "next_test stk = (outs, rest, Some (name, callback)) \<Longrightarrow>
     stack_weight rest + size_option size callback < stack_weight stk"
  by (induction stk arbitrary: outs rule: next_test.induct)
     (auto simp: stack_weight_def weight_def split: prod.splits)

lemma loop_head_runTests:
  "k < length (loops w) \<Longrightarrow>
     \<exists>n. shared ((resume isEqual k ^^ n) (loop_head isEqual k w)) = runTests isEqual (shared w) \<and>
         loops ((resume isEqual k ^^ n) (loop_head isEqual k w)) ! k = Finished \<and>
         length (loops ((resume isEqual k ^^ n) (loop_head isEqual k w))) = length (loops w)"
proof (induction "stack_weight (stack (shared w))" arbitrary: w rule: less_induct)
  case less
  note k = less.prems
  obtain outs rest t where nt: "next_test (stack (shared w)) = (outs, rest, t)"
    by (cases "next_test (stack (shared w))") auto
  let ?r1 = "(shared w)\<lparr>stack := rest, console := console (shared w) @ outs\<rparr>"
  show ?case
  proof (cases t)
    case None
    have loop: "runTests_loop isEqual (shared w) = ?r1"
      using runTests_loop_no_test[OF refl, of "shared w" outs rest isEqual] nt None by simp
    have "shared ((resume isEqual k ^^ 0) (loop_head isEqual k w)) = runTests isEqual (shared w) \<and>
         loops ((resume isEqual k ^^ 0) (loop_head isEqual k w)) ! k = Finished \<and>
         length (loops ((resume isEqual k ^^ 0) (loop_head isEqual k w))) = length (loops w)"
      using k nt None by (simp add: loop_head_def runTests_def loop Let_def)
    then show ?thesis by blast
  next
    case (Some p)
    obtain name callback where p: "p = (name, callback)" by (cases p) auto
    obtain res r' where rt: "runTest isEqual callback ?r1 = (res, r')"
      by (cases "runTest isEqual callback ?r1") auto
    let ?log = "\<lambda>r'. if truthy (result_error res) then
                 r'\<lparr>console := console r' @
                      [ConsoleLogTest name (Some (result_error res, result_shouldSortKeys res))],
                    countFailed := countFailed r' + 1\<rparr>
               else r'\<lparr>console := console r' @ [ConsoleLogTest name None]\<rparr>"
    have loop: "runTests_loop isEqual (shared w) = runTests_loop isEqual (?log r')"
      using runTests_loop_next_test[OF refl, of "shared w" outs rest name callback isEqual]
        nt Some p rt by simp
    have head: "loop_head isEqual k w = start_test isEqual k name callback (w\<lparr>shared := ?r1\<rparr>)"
      using nt Some p by (simp add: loop_head_def Let_def)
    let ?w0 = "start_test isEqual k name callback (w\<lparr>shared := ?r1\<rparr>)"
    from start_test_runTest[of k "w\<lparr>shared := ?r1\<rparr>" isEqual name callback] k rt
    obtain n1 where n1:
      "length (loops ((resume isEqual k ^^ n1) ?w0)) = length (loops w)"
      "loops ((resume isEqual k ^^ n1) ?w0) ! k = Returned name res"
      "shared ((resume isEqual k ^^ n1) ?w0) = r'"
      by auto
    let ?w1 = "(resume isEqual k ^^ n1) ?w0"
    let ?w2 = "?w1\<lparr>shared := ?log r'\<rparr>"
    have step: "resume isEqual k ?w1 = loop_head isEqual k ?w2"
      using n1 k by (simp add: resume_def)
    from runTest_stack[OF rt] obtain pre where
      pre: "stack r' = pre @ rest" "stack_weight pre \<le> size_option size callback" by auto
    have "stack_weight (stack (shared ?w2)) < stack_weight (stack (shared w))"
      using pre next_test_weight[of "stack (shared w)" outs rest name callback] nt Some p
      by (simp add: stack_weight_append)
    moreover have "k < length (loops ?w2)" using n1(1) k by simp
    ultimately obtain n2 where n2:
      "shared ((resume isEqual k ^^ n2) (loop_head isEqual k ?w2)) = runTests isEqual (shared ?w2)"
      "loops ((resume isEqual k ^^ n2) (loop_head isEqual k ?w2)) ! k = Finished"
      "length (loops ((resume isEqual k ^^ n2) (loop_head isEqual k ?w2))) = length (loops ?w2)"
      using less.hyps[of ?w2] by blast
    have comp: "(resume isEqual k ^^ (n2 + Suc n1)) ?w0
                  = (resume isEqual k ^^ n2) (loop_head isEqual k ?w2)"
    proof -
      have "(resume isEqual k ^^ (n2 + Suc n1)) ?w0
              = (resume isEqual k ^^ n2) ((resume isEqual k ^^ Suc n1) ?w0)"
        by (simp only: funpow_add o_apply)
      also have "(resume isEqual k ^^ Suc n1) ?w0 = resume isEqual k ?w1"
        by (simp only: funpow.simps o_apply)
      finally show ?thesis by (simp only: step)
    qed
    have same: "runTests isEqual (shared ?w2) = runTests isEqual (shared w)"
      by (simp add: runTests_def loop)
    have "shared ((resume isEqual k ^^ (n2 + Suc n1)) (loop_head isEqual k w))
            = runTests isEqual (shared w) \<and>
         loops ((resume isEqual k ^^ (n2 + Suc n1)) (loop_head isEqual k w)) ! k = Finished \<and>
         length (loops ((resume isEqual k ^^ (n2 + Suc n1)) (loop_head isEqual k w)))
            = length (loops w)"
      unfolding head comp using n2 same n1(1) by simp
    then show ?thesis by blast
  qed
qed

lemma runTests_start_alone:
  "\<exists>n. shared ((resume isEqual (length (loops w)) ^^ n) (runTests_start isEqual w))
          = runTests isEqual (shared w)"
proof -
  from loop_head_runTests[of "length (loops w)" "w\<lparr>loops := loops w @ [Finished]\<rparr>" isEqual]
  show ?thesis by (auto simp: runTests_start_def)
qed

lemma finish_alone:
  "\<exists>n. shared ((resume isEqual (length (loops w)) ^^ n) (finish isEqual w))
          = runTests isEqual ((shared w)\<lparr>filesDone := True\<rparr>)"
  using runTests_start_alone[of isEqual "w\<lparr>shared := (shared w)\<lparr>filesDone := True\<rparr>\<rparr>"]
  by (simp add: finish_def)

end
